theory Spec2Isabelle
  imports Main "HOL-Library.AList"
begin

section \<open>An adapter between load-balancer events and HTTP handlers\<close>

text \<open>
  The development follows \<^verbatim>\<open>alb.go\<close>. A Go \<^verbatim>\<open>string\<close> and a Go \<^verbatim>\<open>[]byte\<close> are
  both sequences of bytes and are modelled as \<^typ>\<open>string\<close> (a list of 8-bit characters),
  so \<^verbatim>\<open>len\<close> is \<^const>\<open>length\<close> and the conversions between the two are the identity.
\<close>

subsection \<open>Go maps\<close>

text \<open>
  A Go map is either \<^verbatim>\<open>nil\<close> (\<open>None\<close>) or allocated (\<open>Some al\<close>). The entries \<open>al\<close>
  of an allocated map are listed in the order in which a \<^verbatim>\<open>range\<close> statement visits
  them. Go leaves that order unspecified, so every statement below is made for an
  arbitrary order. The keys of a map are pairwise different (\<open>wf_map\<close>).
\<close>

type_synonym 'v gomap = "(string \<times> 'v) list option"

definition len_map :: "'v gomap \<Rightarrow> nat" where
  "len_map m = (case m of None \<Rightarrow> 0 | Some al \<Rightarrow> length al)"

definition range_map :: "'v gomap \<Rightarrow> (string \<times> 'v) list" where
  "range_map m = (case m of None \<Rightarrow> [] | Some al \<Rightarrow> al)"

definition wf_map :: "'v gomap \<Rightarrow> bool" where
  "wf_map m = distinct (map fst (range_map m))"

text \<open>The index expression \<^verbatim>\<open>m[k]\<close> on a map of slices: a missing key reads as the
  empty (nil) slice.\<close>

definition index_map :: "(string \<times> 'a list) list \<Rightarrow> string \<Rightarrow> 'a list" where
  "index_map al k = (case map_of al k of None \<Rightarrow> [] | Some v \<Rightarrow> v)"

subsection \<open>The event and the reply\<close>

record request =
  Method :: string
  Path :: string
  Query :: "string gomap"
  MultiValueQuery :: "string list gomap"
  Headers :: "string gomap"
  MultiValueHeaders :: "string list gomap"
  Body :: string
  BodyEncoded :: bool

text \<open>\<^verbatim>\<open>HeadersProvided\<close> and \<^verbatim>\<open>QueryProvided\<close>: the loop stores \<^verbatim>\<open>container[k] = []string{v}\<close>
  for every entry of the single-value map; ranging over a nil map visits nothing.\<close>

definition HeadersProvided :: "request \<Rightarrow> string list gomap" where
  "HeadersProvided r =
     (if request.MultiValueHeaders r = None
      then Some (fold (\<lambda>(k, v) container. AList.update k [v] container)
                   (range_map (request.Headers r)) [])
      else request.MultiValueHeaders r)"

definition QueryProvided :: "request \<Rightarrow> string list gomap" where
  "QueryProvided r =
     (if MultiValueQuery r = None
      then Some (fold (\<lambda>(k, v) container. AList.update k [v] container)
                   (range_map (Query r)) [])
      else MultiValueQuery r)"

record response =
  StatusCode :: int
  Status :: string
  Headers :: "string gomap"
  MultiValueHeaders :: "string list gomap"
  Body :: string
  BodyEncoded :: bool

subsection \<open>Library functions on strings\<close>

text \<open>\<^verbatim>\<open>strings.Join\<close>: nothing for no element, the element itself for one, and otherwise
  the first element followed by separator and element for each further one.\<close>

fun strings_Join :: "string list \<Rightarrow> string \<Rightarrow> string" where
  "strings_Join [] sep = []"
| "strings_Join [e] sep = e"
| "strings_Join (e # elems) sep = e @ concat (map (\<lambda>s. sep @ s) elems)"

subsection \<open>The URL builder\<close>

text \<open>
  \<^verbatim>\<open>buildURL\<close> hands a string to \<^verbatim>\<open>url.Parse\<close>. The parser is the parameter \<open>parser\<close>,
  so what is proved about the builder holds for every parser. The state of the two nested
  loops is the builder's content \<open>b\<close> and the counter \<open>i\<close> of pairs written so far.
\<close>

datatype error = UrlError string | EscapeError string | CorruptInputError

fun write_values :: "string \<Rightarrow> string list \<Rightarrow> string \<times> nat \<Rightarrow> string \<times> nat" where
  "write_values k [] (b, i) = (b, i)"
| "write_values k (vv # v) (b, i) =
     write_values k v ((if i \<noteq> 0 then b @ ''&'' else b) @ k @ ''='' @ vv, i + 1)"

fun write_query :: "(string \<times> string list) list \<Rightarrow> string \<times> nat \<Rightarrow> string \<times> nat" where
  "write_query [] (b, i) = (b, i)"
| "write_query ((k, v) # query) (b, i) = write_query query (write_values k v (b, i))"

definition buildURL ::
  "(string \<Rightarrow> error + 'u) \<Rightarrow> string \<Rightarrow> string list gomap \<Rightarrow> error + 'u" where
  "buildURL parser path query =
     (if len_map query = 0 then parser path
      else parser (fst (write_query (range_map query) (path @ ''?'', 0))))"

text \<open>The construction in the words of the specification: one \<open>key=value\<close> pair for
  every value, in the order of the entries and, within an entry, of its values; the pairs
  joined by \<open>&\<close> and appended to the path and a question mark.\<close>

definition query_pairs :: "(string \<times> string list) list \<Rightarrow> string list" where
  "query_pairs query = concat (map (\<lambda>(k, v). map (\<lambda>vv. k @ ''='' @ vv) v) query)"

definition url_string :: "string \<Rightarrow> string list gomap \<Rightarrow> string" where
  "url_string path query =
     (if range_map query = [] then path
      else path @ ''?'' @ strings_Join (query_pairs (range_map query)) ''&'')"

subsection \<open>Library functions: header names\<close>

text \<open>
  The functions of this and the next three subsections belong to the Go standard library,
  not to the adapter. They are modelled after the library's documented behaviour, as far
  as the adapter depends on it. \<open>byte c\<close> is the numeric value of a byte.
\<close>

abbreviation byte :: "char \<Rightarrow> int" where
  "byte \<equiv> of_char"

definition is_lower :: "char \<Rightarrow> bool" where
  "is_lower c = (byte CHR ''a'' \<le> byte c \<and> byte c \<le> byte CHR ''z'')"

definition is_upper :: "char \<Rightarrow> bool" where
  "is_upper c = (byte CHR ''A'' \<le> byte c \<and> byte c \<le> byte CHR ''Z'')"

definition is_digit :: "char \<Rightarrow> bool" where
  "is_digit c = (byte CHR ''0'' \<le> byte c \<and> byte c \<le> byte CHR ''9'')"

text \<open>\<^verbatim>\<open>validHeaderFieldByte\<close>: the bytes of an HTTP token (RFC 7230).\<close>

definition validHeaderFieldByte :: "char \<Rightarrow> bool" where
  "validHeaderFieldByte c =
     (is_digit c \<or> is_lower c \<or> is_upper c \<or> c \<in> set ''!#$%&*+-.^_`|~'' \<or> c = CHR 0x27)"

definition toLower :: int where
  "toLower = byte CHR ''a'' - byte CHR ''A''"

text \<open>The second loop of \<^verbatim>\<open>canonicalMIMEHeaderKey\<close>: upper case for the first letter and
  for a letter after a hyphen, lower case for every other letter.\<close>

fun canonical_case :: "bool \<Rightarrow> string \<Rightarrow> string" where
  "canonical_case upper [] = []"
| "canonical_case upper (c # a) =
     (let c' = (if upper \<and> is_lower c then char_of (byte c - toLower)
                else if \<not> upper \<and> is_upper c then char_of (byte c + toLower)
                else c)
      in c' # canonical_case (c' = CHR ''-'') a)"

text \<open>The first loop of \<^verbatim>\<open>canonicalMIMEHeaderKey\<close>: \<open>None\<close> when a byte is neither valid
  nor a space (the key is returned as it is), otherwise whether a space was met
  (\<^verbatim>\<open>noCanon\<close>).\<close>

fun scan_key :: "bool \<Rightarrow> string \<Rightarrow> bool option" where
  "scan_key noCanon [] = Some noCanon"
| "scan_key noCanon (c # a) =
     (if validHeaderFieldByte c then scan_key noCanon a
      else if c = CHR '' '' then scan_key True a
      else None)"

definition canonicalMIMEHeaderKey :: "string \<Rightarrow> string" where
  "canonicalMIMEHeaderKey a =
     (case scan_key False a of
        None \<Rightarrow> a
      | Some noCanon \<Rightarrow> if noCanon then a else canonical_case True a)"

text \<open>The quick check of \<^verbatim>\<open>CanonicalMIMEHeaderKey\<close>: it stops at the first invalid byte
  (the key is returned as it is) or at the first letter of the wrong case (the key is
  canonicalized); a key that passes is already canonical.\<close>

fun quick_check :: "bool \<Rightarrow> string \<Rightarrow> bool" where
  "quick_check upper [] = False"
| "quick_check upper (c # s) =
     (if \<not> validHeaderFieldByte c then False
      else if upper \<and> is_lower c then True
      else if \<not> upper \<and> is_upper c then True
      else quick_check (c = CHR ''-'') s)"

definition CanonicalMIMEHeaderKey :: "string \<Rightarrow> string" where
  "CanonicalMIMEHeaderKey s = (if quick_check True s then canonicalMIMEHeaderKey s else s)"

text \<open>\<^verbatim>\<open>http.Header.Get\<close>: the first value stored under the canonical form of the key,
  the empty string when there is none.\<close>

definition header_Get :: "(string \<times> string list) list \<Rightarrow> string \<Rightarrow> string" where
  "header_Get h key =
     (case index_map h (CanonicalMIMEHeaderKey key) of [] \<Rightarrow> [] | v # _ \<Rightarrow> v)"

subsection \<open>Library functions: UTF-8 validity\<close>

text \<open>
  \<^verbatim>\<open>utf8.Valid\<close>. \<open>first\<close> is the library's table of information about a sequence's
  first byte: \<open>0xF0\<close> for ASCII, \<open>0xF1\<close> for an illegal starter, and otherwise the
  index of the range accepted for the second byte (high four bits) and the size of the
  sequence (low three bits).
\<close>

definition first :: "int \<Rightarrow> int" where
  "first b =
     (if b < 0x80 then 0xF0
      else if b < 0xC2 then 0xF1
      else if b < 0xE0 then 0x02
      else if b = 0xE0 then 0x13
      else if b < 0xED then 0x03
      else if b = 0xED then 0x23
      else if b < 0xF0 then 0x03
      else if b = 0xF0 then 0x34
      else if b < 0xF4 then 0x04
      else if b = 0xF4 then 0x44
      else 0xF1)"

definition acceptRanges :: "int \<Rightarrow> int \<times> int" where
  "acceptRanges n =
     (if n = 0 then (0x80, 0xBF)
      else if n = 1 then (0xA0, 0xBF)
      else if n = 2 then (0x80, 0x9F)
      else if n = 3 then (0x90, 0xBF)
      else if n = 4 then (0x80, 0x8F)
      else (0, 0))"

fun utf8_Valid :: "string \<Rightarrow> bool" where
  "utf8_Valid [] = True"
| "utf8_Valid (pi # p) =
     (if byte pi < 0x80 then utf8_Valid p
      else
        let x = first (byte pi); size = x mod 8; accept = acceptRanges (x div 16) in
        if x = 0xF1 then False
        else if size > int (length (pi # p)) then False
        else if byte (p ! 0) < fst accept \<or> snd accept < byte (p ! 0) then False
        else if size = 2 then utf8_Valid (drop 1 p)
        else if byte (p ! 1) < 0x80 \<or> 0xBF < byte (p ! 1) then False
        else if size = 3 then utf8_Valid (drop 2 p)
        else if byte (p ! 2) < 0x80 \<or> 0xBF < byte (p ! 2) then False
        else utf8_Valid (drop 3 p))"

subsection \<open>Library functions: base64\<close>

text \<open>
  \<^verbatim>\<open>base64.StdEncoding\<close>: the alphabet of RFC 4648 with \<open>=\<close> as padding, not strict.
  The decoder skips carriage returns and line feeds, wants every group of four
  characters complete or padded, and nothing but line ends after the padding.
  A group of sextets \<open>d\<^sub>0 d\<^sub>1 d\<^sub>2 d\<^sub>3\<close> stands for the number
  \<open>d\<^sub>0 * 2\<^sup>1\<^sup>8 + d\<^sub>1 * 2\<^sup>1\<^sup>2 + d\<^sub>2 * 2\<^sup>6 + d\<^sub>3\<close>, whose three bytes are the output.
\<close>

definition encodeStd :: string where
  "encodeStd = ''ABCDEFGHIJKLMNOPQRSTUVWXYZabcdefghijklmnopqrstuvwxyz0123456789+/''"

fun index_of :: "char \<Rightarrow> string \<Rightarrow> int option" where
  "index_of c [] = None"
| "index_of c (x # xs) = (if c = x then Some 0 else map_option (\<lambda>i. i + 1) (index_of c xs))"

definition decodeMap :: "char \<Rightarrow> int option" where
  "decodeMap c = index_of c encodeStd"

definition encode_sextet :: "int \<Rightarrow> char" where
  "encode_sextet v = encodeStd ! nat (v mod 64)"

fun EncodeToString :: "string \<Rightarrow> string" where
  "EncodeToString (a # b # c # src) =
     (let val = byte a * 65536 + byte b * 256 + byte c in
      [encode_sextet (val div 262144), encode_sextet (val div 4096),
       encode_sextet (val div 64), encode_sextet val] @ EncodeToString src)"
| "EncodeToString [a, b] =
     (let val = byte a * 65536 + byte b * 256 in
      [encode_sextet (val div 262144), encode_sextet (val div 4096),
       encode_sextet (val div 64), CHR ''=''])"
| "EncodeToString [a] =
     (let val = byte a * 65536 in
      [encode_sextet (val div 262144), encode_sextet (val div 4096), CHR ''='', CHR ''=''])"
| "EncodeToString [] = []"

definition is_newline :: "char \<Rightarrow> bool" where
  "is_newline c = (c = CHR 0x0A \<or> c = CHR 0x0D)"

text \<open>The bytes of a quantum of \<open>dlen\<close> sextets: \<open>dlen - 1\<close> of the three bytes.\<close>

definition quantum_bytes :: "int list \<Rightarrow> string" where
  "quantum_bytes dbuf =
     (let d = dbuf @ replicate (4 - length dbuf) 0;
          val = d ! 0 * 262144 + d ! 1 * 4096 + d ! 2 * 64 + d ! 3
      in take (length dbuf - 1)
           [char_of (val div 65536), char_of (val div 256), char_of val])"

text \<open>\<open>decode_loop dbuf src\<close>: \<open>dbuf\<close> holds the sextets of the current quantum read so far.\<close>

fun decode_loop :: "int list \<Rightarrow> string \<Rightarrow> error + string" where
  "decode_loop dbuf [] = (if dbuf = [] then Inr [] else Inl CorruptInputError)"
| "decode_loop dbuf (c # src) =
     (case decodeMap c of
        Some out \<Rightarrow>
          if length dbuf = 3
          then (case decode_loop [] src of
                  Inl err \<Rightarrow> Inl err
                | Inr rest \<Rightarrow> Inr (quantum_bytes (dbuf @ [out]) @ rest))
          else decode_loop (dbuf @ [out]) src
      | None \<Rightarrow>
          if is_newline c then decode_loop dbuf src
          else if c \<noteq> CHR ''='' then Inl CorruptInputError
          else if length dbuf < 2 then Inl CorruptInputError
          else if length dbuf = 2
          then (case dropWhile is_newline src of
                  [] \<Rightarrow> Inl CorruptInputError
                | c' # src' \<Rightarrow>
                    if c' \<noteq> CHR ''='' then Inl CorruptInputError
                    else if dropWhile is_newline src' \<noteq> [] then Inl CorruptInputError
                    else Inr (quantum_bytes dbuf))
          else if dropWhile is_newline src \<noteq> [] then Inl CorruptInputError
          else Inr (quantum_bytes dbuf))"

definition DecodeString :: "string \<Rightarrow> error + string" where
  "DecodeString s = decode_loop [] s"

subsection \<open>Library functions: URLs\<close>

text \<open>
  \<^verbatim>\<open>url.Parse\<close> and \<^verbatim>\<open>URL.Query\<close> of \<^verbatim>\<open>net/url\<close>. Three things are left out: the wrapping
  of an error into \<^verbatim>\<open>*url.Error\<close>; the escaping modes that only the parsing of an
  authority uses; and the parsing of the authority (user and host) itself, which is the
  parameter \<open>parseAuthority\<close> of the parser.
\<close>

datatype encoding = encodePath | encodeQueryComponent | encodeFragment

datatype Userinfo = Userinfo (username: string) (password: string) (passwordSet: bool)

record url =
  Scheme :: string
  Opaque :: string
  User :: "Userinfo option"
  Host :: string
  Path :: string
  RawPath :: string
  OmitHost :: bool
  ForceQuery :: bool
  RawQuery :: string
  Fragment :: string
  RawFragment :: string

definition empty_url :: url where
  "empty_url = \<lparr>Scheme = [], Opaque = [], User = None, Host = [], Path = [], RawPath = [],
     OmitHost = False, ForceQuery = False, RawQuery = [], Fragment = [], RawFragment = []\<rparr>"

definition ishex :: "char \<Rightarrow> bool" where
  "ishex c =
     (is_digit c \<or> (byte CHR ''a'' \<le> byte c \<and> byte c \<le> byte CHR ''f'') \<or>
      (byte CHR ''A'' \<le> byte c \<and> byte c \<le> byte CHR ''F''))"

definition unhex :: "char \<Rightarrow> int" where
  "unhex c =
     (if is_digit c then byte c - byte CHR ''0''
      else if byte CHR ''a'' \<le> byte c \<and> byte c \<le> byte CHR ''f''
      then byte c - byte CHR ''a'' + 10
      else if byte CHR ''A'' \<le> byte c \<and> byte c \<le> byte CHR ''F''
      then byte c - byte CHR ''A'' + 10
      else 0)"

definition shouldEscape :: "char \<Rightarrow> encoding \<Rightarrow> bool" where
  "shouldEscape c mode =
     (if is_lower c \<or> is_upper c \<or> is_digit c then False
      else if c \<in> set ''-_.~'' then False
      else if c \<in> set ''$&+,/:;=?@''
      then (case mode of
              encodePath \<Rightarrow> c = CHR ''?''
            | encodeQueryComponent \<Rightarrow> True
            | encodeFragment \<Rightarrow> False)
      else if mode = encodeFragment \<and> c \<in> set ''!()*'' then False
      else True)"

text \<open>\<^verbatim>\<open>unescape\<close>: the library checks every escape in a first pass and converts in a
  second; the model does both in one pass, with the same result. An escape is \<open>%\<close>
  and two hexadecimal digits; a \<open>+\<close> is a space in a query component.\<close>

fun unescape :: "string \<Rightarrow> encoding \<Rightarrow> error + string" where
  "unescape [] mode = Inr []"
| "unescape (c # s) mode =
     (if c = CHR ''%''
      then (case s of
              h1 # h2 # s' \<Rightarrow>
                if ishex h1 \<and> ishex h2
                then (case unescape s' mode of
                        Inl err \<Rightarrow> Inl err
                      | Inr t \<Rightarrow> Inr (char_of (unhex h1 * 16 + unhex h2) # t))
                else Inl (EscapeError (take 3 (c # s)))
            | _ \<Rightarrow> Inl (EscapeError (take 3 (c # s))))
      else (case unescape s mode of
              Inl err \<Rightarrow> Inl err
            | Inr t \<Rightarrow>
                Inr ((if c = CHR ''+'' \<and> mode = encodeQueryComponent then CHR '' '' else c) # t)))"

definition QueryUnescape :: "string \<Rightarrow> error + string" where
  "QueryUnescape s = unescape s encodeQueryComponent"

definition upperhex :: string where
  "upperhex = ''0123456789ABCDEF''"

fun escape :: "string \<Rightarrow> encoding \<Rightarrow> string" where
  "escape [] mode = []"
| "escape (c # s) mode =
     (if shouldEscape c mode
      then (if c = CHR '' '' \<and> mode = encodeQueryComponent then ''+''
            else [CHR ''%'', upperhex ! nat (byte c div 16), upperhex ! nat (byte c mod 16)])
      else [c]) @ escape s mode"

text \<open>\<^verbatim>\<open>strings.Cut\<close> for a separator of one byte: the text before and after the first
  occurrence of the separator, and whether it occurs.\<close>

fun Cut :: "string \<Rightarrow> char \<Rightarrow> string \<times> string \<times> bool" where
  "Cut [] sep = ([], [], False)"
| "Cut (c # s) sep =
     (if c = sep then ([], s, True)
      else (case Cut s sep of (before, after, found) \<Rightarrow> (c # before, after, found)))"

definition stringContainsCTLByte :: "string \<Rightarrow> bool" where
  "stringContainsCTLByte s = list_ex (\<lambda>b. byte b < byte CHR '' '' \<or> byte b = 0x7F) s"

text \<open>\<^verbatim>\<open>getScheme\<close>: \<open>scheme_scan rawURL pre s\<close> has read \<open>pre\<close> and looks at \<open>s\<close>; the
  index \<open>i\<close> of the library's loop is zero exactly when \<open>pre\<close> is empty.\<close>

fun scheme_scan :: "string \<Rightarrow> string \<Rightarrow> string \<Rightarrow> error + string \<times> string" where
  "scheme_scan rawURL pre [] = Inr ([], rawURL)"
| "scheme_scan rawURL pre (c # s) =
     (if is_lower c \<or> is_upper c then scheme_scan rawURL (pre @ [c]) s
      else if is_digit c \<or> c = CHR ''+'' \<or> c = CHR ''-'' \<or> c = CHR ''.''
      then (if pre = [] then Inr ([], rawURL) else scheme_scan rawURL (pre @ [c]) s)
      else if c = CHR '':''
      then (if pre = [] then Inl (UrlError ''missing protocol scheme'') else Inr (pre, s))
      else Inr ([], rawURL))"

definition getScheme :: "string \<Rightarrow> error + string \<times> string" where
  "getScheme rawURL = scheme_scan rawURL [] rawURL"

text \<open>\<^verbatim>\<open>strings.ToLower\<close> on ASCII text, byte by byte.\<close>

definition lower_byte :: "char \<Rightarrow> char" where
  "lower_byte c = (if is_upper c then char_of (byte c + toLower) else c)"

definition ToLower :: "string \<Rightarrow> string" where
  "ToLower s = map lower_byte s"

definition setPath :: "url \<Rightarrow> string \<Rightarrow> error + url" where
  "setPath u p =
     (case unescape p encodePath of
        Inl err \<Rightarrow> Inl err
      | Inr path \<Rightarrow>
          Inr (u\<lparr>Path := path, RawPath := (if p = escape path encodePath then [] else p)\<rparr>))"

definition setFragment :: "url \<Rightarrow> string \<Rightarrow> error + url" where
  "setFragment u f =
     (case unescape f encodeFragment of
        Inl err \<Rightarrow> Inl err
      | Inr frag \<Rightarrow>
          Inr (u\<lparr>Fragment := frag,
                 RawFragment := (if f = escape frag encodeFragment then [] else f)\<rparr>))"

text \<open>The splitting of the query off the rest: a single question mark at the very end
  only forces an empty query.\<close>

definition split_query :: "url \<Rightarrow> string \<Rightarrow> string \<times> url" where
  "split_query u rest =
     (if rest \<noteq> [] \<and> last rest = CHR ''?'' \<and> count_list rest CHR ''?'' = 1
      then (butlast rest, u\<lparr>ForceQuery := True\<rparr>)
      else (case Cut rest CHR ''?'' of (rest', query, _) \<Rightarrow> (rest', u\<lparr>RawQuery := query\<rparr>)))"

text \<open>\<^verbatim>\<open>parse\<close> with \<^verbatim>\<open>viaRequest\<close> false.\<close>

definition parse ::
  "(string \<Rightarrow> error + Userinfo option \<times> string) \<Rightarrow> string \<Rightarrow> error + url" where
  "parse parseAuthority rawURL =
     (if stringContainsCTLByte rawURL
      then Inl (UrlError ''net/url: invalid control character in URL'')
      else if rawURL = ''*'' then Inr (empty_url\<lparr>Path := ''*''\<rparr>)
      else
        (case getScheme rawURL of
           Inl err \<Rightarrow> Inl err
         | Inr (scheme, rest0) \<Rightarrow>
             (case split_query (empty_url\<lparr>Scheme := ToLower scheme\<rparr>) rest0 of
                (rest, u) \<Rightarrow>
                  if take 1 rest \<noteq> ''/'' \<and> Scheme u \<noteq> [] then Inr (u\<lparr>Opaque := rest\<rparr>)
                  else if take 1 rest \<noteq> ''/'' \<and> CHR '':'' \<in> set (fst (Cut rest CHR ''/''))
                  then Inl (UrlError ''first path segment in URL cannot contain colon'')
                  else if (Scheme u \<noteq> [] \<or> take 3 rest \<noteq> ''///'') \<and> take 2 rest = ''//''
                  then
                    (let authority = takeWhile (\<lambda>c. c \<noteq> CHR ''/'') (drop 2 rest);
                         rest' = dropWhile (\<lambda>c. c \<noteq> CHR ''/'') (drop 2 rest)
                     in case parseAuthority authority of
                          Inl err \<Rightarrow> Inl err
                        | Inr (user, host) \<Rightarrow> setPath (u\<lparr>User := user, Host := host\<rparr>) rest')
                  else if Scheme u \<noteq> [] \<and> take 1 rest = ''/''
                  then setPath (u\<lparr>OmitHost := True\<rparr>) rest
                  else setPath u rest)))"

definition Parse ::
  "(string \<Rightarrow> error + Userinfo option \<times> string) \<Rightarrow> string \<Rightarrow> error + url" where
  "Parse parseAuthority rawURL =
     (case Cut rawURL CHR ''#'' of
        (u, frag, _) \<Rightarrow>
          (case parse parseAuthority u of
             Inl err \<Rightarrow> Inl err
           | Inr url \<Rightarrow> if frag = [] then Inr url else setFragment url frag))"

text \<open>
  \<^verbatim>\<open>parseQuery\<close>: the query is cut at every \<open>&\<close>; a piece with a semicolon, an empty
  piece and a piece whose key or value does not unescape are skipped; otherwise the
  piece is cut at its first \<open>=\<close> and the value appended to the values of the key.
  \<^verbatim>\<open>URL.Query\<close> drops the error of \<^verbatim>\<open>ParseQuery\<close>, so the model does not compute it.
\<close>

definition add_value ::
  "(string \<times> string list) list \<Rightarrow> string \<Rightarrow> string \<Rightarrow> (string \<times> string list) list" where
  "add_value m key val = AList.update key (index_map m key @ [val]) m"

definition parse_piece ::
  "(string \<times> string list) list \<Rightarrow> string \<Rightarrow> (string \<times> string list) list" where
  "parse_piece m piece =
     (if CHR '';'' \<in> set piece then m
      else if piece = [] then m
      else (case Cut piece CHR ''='' of
              (key, val, _) \<Rightarrow>
                (case QueryUnescape key of
                   Inl err \<Rightarrow> m
                 | Inr key' \<Rightarrow>
                     (case QueryUnescape val of
                        Inl err \<Rightarrow> m
                      | Inr val' \<Rightarrow> add_value m key' val'))))"

function parseQuery ::
  "(string \<times> string list) list \<Rightarrow> string \<Rightarrow> (string \<times> string list) list" where
  "parseQuery m query =
     (if query = [] then m
      else (case Cut query CHR ''&'' of
              (piece, query', _) \<Rightarrow> parseQuery (parse_piece m piece) query'))"
  by pat_completeness auto
termination
proof (relation "measure (\<lambda>(m, query). length query)")
  show "wf (measure (\<lambda>(m, query). length query))" by simp
next
  fix m :: "(string \<times> string list) list" and query x xa y xb
  assume q: "query \<noteq> []" and x: "(x, xa) = Cut query CHR ''&''" and xa: "(y, xb) = xa"
  have shorter: "length (fst (snd (Cut s sep))) \<le> length s" for s sep
    by (induction s) (auto split: prod.splits)
  obtain c s where cs: "query = c # s" using q by (cases query) auto
  have y: "y = fst (snd (Cut query CHR ''&''))" using x xa by (metis fst_conv snd_conv)
  have "length y < length query"
  proof (cases "c = CHR ''&''")
    case True
    then show ?thesis by (simp add: y cs)
  next
    case False
    then have "y = fst (snd (Cut s CHR ''&''))" by (simp add: y cs split: prod.splits)
    then show ?thesis using shorter [of s "CHR ''&''"] by (simp add: cs)
  qed
  then show "((parse_piece m x, y), (m, query)) \<in> measure (\<lambda>(m, query). length query)"
    by simp
qed

declare parseQuery.simps [simp del]

definition url_Query :: "url \<Rightarrow> (string \<times> string list) list" where
  "url_Query u = parseQuery [] (RawQuery u)"

subsection \<open>Percent-escaped text, in the words of the specification\<close>

text \<open>
  A string is percent-escaped when it consists of unreserved characters (RFC 3986:
  letters, digits, \<open>-\<close>, \<open>_\<close>, \<open>.\<close> and \<open>~\<close>) and of escapes, a \<open>%\<close> followed
  by two hexadecimal digits. Percent-decoding replaces every escape by the byte it
  denotes and leaves every other byte as it is.
\<close>

definition unreserved :: "char \<Rightarrow> bool" where
  "unreserved c = (is_lower c \<or> is_upper c \<or> is_digit c \<or> c \<in> set ''-_.~'')"

fun percent_escaped :: "string \<Rightarrow> bool" where
  "percent_escaped [] = True"
| "percent_escaped (c # s) =
     (if c = CHR ''%''
      then (case s of
              h1 # h2 # s' \<Rightarrow> ishex h1 \<and> ishex h2 \<and> percent_escaped s'
            | _ \<Rightarrow> False)
      else unreserved c \<and> percent_escaped s)"

fun percent_decode :: "string \<Rightarrow> string" where
  "percent_decode [] = []"
| "percent_decode (c # s) =
     (if c = CHR ''%''
      then (case s of
              h1 # h2 # s' \<Rightarrow> char_of (unhex h1 * 16 + unhex h2) # percent_decode s'
            | _ \<Rightarrow> c # percent_decode s)
      else c # percent_decode s)"

text \<open>The pairs of a query mapping, each key and value percent-decoded, in the order
  of the entries and of the values of an entry.\<close>

definition decoded_pairs :: "(string \<times> string list) list \<Rightarrow> (string \<times> string) list" where
  "decoded_pairs query =
     concat (map (\<lambda>(k, v). map (\<lambda>vv. (percent_decode k, percent_decode vv)) v) query)"

subsection \<open>The HTTP request, the handler and the recorded response\<close>

text \<open>
  \<^verbatim>\<open>http.Request\<close>, with the fields the adapter sets. The body is a reader over a byte
  sequence (\<open>None\<close> is the nil reader); the context is the list of values it carries.
  The type \<open>'u\<close> is that of parsed URLs. \<^verbatim>\<open>ContentLength\<close> is an \<^verbatim>\<open>int64\<close> set from a
  length, which is an \<^verbatim>\<open>int\<close> and so always fits: no wrap-around can occur, and the field
  is modelled as an integer.
\<close>

type_synonym "context" = "(string \<times> string) list"

record 'u http_Request =
  ProtoMajor :: int
  ProtoMinor :: int
  Proto :: string
  Method :: string
  URL :: 'u
  Header :: "(string \<times> string list) list"
  Host :: string
  Body :: "string option"
  ContentLength :: int
  Ctx :: "context"

text \<open>
  What the adapter reads from the recorder once \<^verbatim>\<open>ServeHTTP\<close> has returned: status code,
  status line and header of \<^verbatim>\<open>recorder.Result()\<close>, and the bytes of \<^verbatim>\<open>recorder.Body\<close>.
  The recorder allocates its header map, so the header is never nil.
\<close>

record recorded =
  res_StatusCode :: int
  res_Status :: string
  res_Header :: "(string \<times> string list) list"
  rec_Body :: string

text \<open>A Go call either panics with a value or returns. A handler is a function from the
  request it is given to what it leaves in the recorder, unless it panics.\<close>

datatype 'a go_result = Panic string | Return 'a

type_synonym 'u handler = "'u http_Request \<Rightarrow> recorded go_result"

subsection \<open>The adapter\<close>

definition SetHeaders ::
  "response \<Rightarrow> request \<Rightarrow> (string \<times> string list) list \<Rightarrow> response" where
  "SetHeaders r req res_header =
     (if request.MultiValueHeaders req = None
      then r\<lparr>response.Headers :=
               Some (fold (\<lambda>(k, vv) hs. AList.update k (strings_Join vv '','') hs)
                       res_header [])\<rparr>
      else r\<lparr>response.MultiValueHeaders := Some res_header\<rparr>)"

text \<open>\<^verbatim>\<open>Run\<close> up to the call of the handler (the reconstruction of the request) ...\<close>

definition Run_request ::
  "(string \<Rightarrow> error + 'u) \<Rightarrow> context \<Rightarrow> request \<Rightarrow> error + 'u http_Request" where
  "Run_request parser ctx req =
     (case buildURL parser (request.Path req) (QueryProvided req) of
        Inl err \<Rightarrow> Inl err
      | Inr u \<Rightarrow>
          let headers = fold (\<lambda>(k, v) hs. AList.update (CanonicalMIMEHeaderKey k) v hs)
                          (range_map (HeadersProvided req)) [];
              r = \<lparr>ProtoMajor = 1, ProtoMinor = 1, Proto = ''HTTP/1.1'',
                   Method = request.Method req, URL = u, Header = headers,
                   Host = header_Get headers ''Host'', Body = None, ContentLength = 0,
                   Ctx = ctx\<rparr>
          in if request.BodyEncoded req
             then (case DecodeString (request.Body req) of
                     Inl err \<Rightarrow> Inl err
                   | Inr b \<Rightarrow> Inr (r\<lparr>Body := Some b, ContentLength := int (length b)\<rparr>))
             else Inr (r\<lparr>Body := Some (request.Body req),
                         ContentLength := int (length (request.Body req))\<rparr>))"

text \<open>... and after it (the reply made from the recorder).\<close>

definition Run_reply :: "request \<Rightarrow> recorded \<Rightarrow> response" where
  "Run_reply req rec =
     (let out = SetHeaders
                  \<lparr>StatusCode = res_StatusCode rec, Status = res_Status rec,
                   Headers = None, MultiValueHeaders = None, Body = [],
                   BodyEncoded = False\<rparr>
                  req (res_Header rec);
          b = rec_Body rec
      in if utf8_Valid b then out\<lparr>response.Body := b\<rparr>
         else out\<lparr>response.Body := EncodeToString b, response.BodyEncoded := True\<rparr>)"

definition Run ::
  "(string \<Rightarrow> error + 'u) \<Rightarrow> 'u handler \<Rightarrow> context \<Rightarrow> request
     \<Rightarrow> (error + response) go_result" where
  "Run parser h ctx req =
     (case Run_request parser ctx req of
        Inl err \<Rightarrow> Return (Inl err)
      | Inr r \<Rightarrow>
          (case h r of
             Panic v \<Rightarrow> Panic v
           | Return rec \<Rightarrow> Return (Inr (Run_reply req rec))))"

text \<open>\<^verbatim>\<open>Handler\<close>: a nil handler (\<open>None\<close>) makes the constructor panic.\<close>

definition Handler ::
  "(string \<Rightarrow> error + 'u) \<Rightarrow> 'u handler option
     \<Rightarrow> (context \<Rightarrow> request \<Rightarrow> (error + response) go_result) go_result" where
  "Handler parser h =
     (case h of
        None \<Rightarrow> Panic ''Wrap called with nil handler''
      | Some hh \<Rightarrow> Return (Run parser hh))"

text \<open>For running the parser on URLs that have no authority, any parser of authorities
  will do; this one refuses them all.\<close>

definition refuse_authority :: "string \<Rightarrow> error + Userinfo option \<times> string" where
  "refuse_authority authority = Inl (UrlError ''authority refused'')"

subsection \<open>Sample events and handlers\<close>

text \<open>An event with a method and a path and every other field at its zero value; what
  the recorder holds after a handler has set a header and written a body with status
  200; a handler that writes the request's body back (as in the repository's tests); a
  handler that writes a given header and body; and a handler that panics.\<close>

definition event :: "string \<Rightarrow> string \<Rightarrow> request" where
  "event m p = \<lparr>request.Method = m, request.Path = p, Query = None, MultiValueQuery = None,
     request.Headers = None, request.MultiValueHeaders = None, request.Body = [],
     request.BodyEncoded = False\<rparr>"

definition wrote :: "(string \<times> string list) list \<Rightarrow> string \<Rightarrow> recorded" where
  "wrote header body =
     \<lparr>res_StatusCode = 200, res_Status = ''200 OK'', res_Header = header, rec_Body = body\<rparr>"

definition echo :: "url handler" where
  "echo r = Return (wrote [] (case http_Request.Body r of None \<Rightarrow> [] | Some b \<Rightarrow> b))"

definition writes :: "(string \<times> string list) list \<Rightarrow> string \<Rightarrow> url handler" where
  "writes header body r = Return (wrote header body)"

definition panics :: "url handler" where
  "panics r = Panic ''boom''"

text \<open>The bytes of the text \<^verbatim>\<open>Hello, \<close> followed by two Chinese characters, \<^verbatim>\<open>! \<close> and
  an emoji, in UTF-8 (the text of the repository's test of UTF-8 replies).\<close>

definition hello_utf8 :: string where
  "hello_utf8 = ''Hello, '' @ [CHR 0xE4, CHR 0xB8, CHR 0x96, CHR 0xE7, CHR 0x95, CHR 0x8C] @
     ''! '' @ [CHR 0xF0, CHR 0x9F, CHR 0x8C, CHR 0x8D]"

text \<open>A handler that looks a header up and writes its value (as in the repository's
  test of header canonicalization).\<close>

definition reads_header :: "string \<Rightarrow> url handler" where
  "reads_header key r = Return (wrote [] (header_Get (Header r) key))"

subsection \<open>An auxiliary function\<close>

text \<open>An auxiliary reading of the loops' output: the pairs written in order, each but
  the first preceded by \<open>&\<close>; \<open>started\<close> says whether a pair has been written before.\<close>

fun sep_pairs :: "bool \<Rightarrow> string list \<Rightarrow> string" where
  "sep_pairs started [] = []"
| "sep_pairs started (p # ps) = (if started then ''&'' else []) @ p @ sep_pairs True ps"

section \<open>Properties\<close>

subsection \<open>The builder's loops\<close>

lemma sep_pairs_append:
  "sep_pairs started (ps @ qs) = sep_pairs started ps @ sep_pairs (started \<or> ps \<noteq> []) qs"
  by (induction ps arbitrary: started) auto

lemma sep_pairs_True: "sep_pairs True ps = concat (map ((@) ''&'') ps)"
  by (induction ps) auto

lemma sep_pairs_Join: "sep_pairs False ps = strings_Join ps ''&''"
proof (cases ps)
  case Nil
  then show ?thesis by simp
next
  case (Cons p qs)
  then show ?thesis by (cases qs) (simp_all add: sep_pairs_True del: append.simps)
qed

lemma write_values_eq:
  "write_values k v (b, i) =
     (b @ sep_pairs (i \<noteq> 0) (map (\<lambda>vv. k @ ''='' @ vv) v), i + length v)"
  by (induction v arbitrary: b i) auto

lemma write_query_eq:
  "write_query query (b, i) =
     (b @ sep_pairs (i \<noteq> 0) (query_pairs query), i + length (query_pairs query))"
proof (induction query arbitrary: b i)
  case Nil
  then show ?case by (simp add: query_pairs_def)
next
  case (Cons e query)
  obtain k v where e: "e = (k, v)" by (cases e)
  have pairs: "query_pairs ((k, v) # query) = map (\<lambda>vv. k @ ''='' @ vv) v @ query_pairs query"
    by (simp add: query_pairs_def)
  show ?case
    by (simp add: e write_values_eq Cons.IH pairs sep_pairs_append)
qed

lemma buildURL_url_string: "buildURL parser path query = parser (url_string path query)"
  by (cases query)
     (auto simp: buildURL_def url_string_def len_map_def range_map_def write_query_eq
        sep_pairs_Join)


lemma query_pairs_filter:
  "query_pairs (filter (\<lambda>(k, v). v \<noteq> []) query) = query_pairs query"
  by (induction query) (auto simp: query_pairs_def)

lemma query_pairs_all_empty:
  "list_all (\<lambda>(k, v). v = []) query \<Longrightarrow> query_pairs query = []"
  by (induction query) (auto simp: query_pairs_def)

subsection \<open>Loops that fill a map\<close>

lemma update_fresh: "k \<notin> fst ` set al \<Longrightarrow> AList.update k v al = al @ [(k, v)]"
  by (induction al) auto

lemma fold_update_distinct:
  "distinct (map fst al) \<Longrightarrow> fst ` set al \<inter> fst ` set acc = {} \<Longrightarrow>
   fold (\<lambda>(k, v) c. AList.update k (f v) c) al acc = acc @ map (\<lambda>(k, v). (k, f v)) al"
proof (induction al arbitrary: acc)
  case Nil
  then show ?case by simp
next
  case (Cons e al)
  obtain k v where e: "e = (k, v)" by (cases e)
  have fresh: "k \<notin> fst ` set acc" using Cons.prems(2) by (auto simp: e)
  have "fst ` set al \<inter> fst ` set (acc @ [(k, f v)]) = {}"
    using Cons.prems by (auto simp: e image_iff)
  with Cons.IH [of "acc @ [(k, f v)]"] Cons.prems(1) fresh show ?case
    by (simp add: e update_fresh)
qed

subsection \<open>The URL builder\<close>

text \<open>
  C7. \<^verbatim>\<open>buildURL\<close> parses the string the specification describes: the path alone for a
  query without entries, and otherwise the path, a question mark and the \<open>key=value\<close>
  pairs joined by \<open>&\<close>, one pair for every value, the values of a key in their order;
  nothing is escaped. Its result is the parser's result on that string, so it is an
  error exactly when that string does not parse.
\<close>

theorem buildURL_follows_algorithm:
  "buildURL parser path query =
     parser (if len_map query = 0 then path
             else path @ ''?'' @
               strings_Join
                 (concat (map (\<lambda>(k, v). map (\<lambda>vv. k @ ''='' @ vv) v) (range_map query))) ''&'')
   \<and> isl (buildURL parser path query) = isl (parser (url_string path query))"
proof -
  have "len_map query = 0 \<longleftrightarrow> range_map query = []"
    by (cases query) (auto simp: len_map_def range_map_def)
  then show ?thesis
    by (simp add: buildURL_url_string url_string_def query_pairs_def)
qed

theorem buildURL_follows_algorithm_witness:
  "buildURL (Parse refuse_authority) ''/filter''
       (Some [(''page'', [''1'']), (''tag'', [''a'', ''b''])]) =
     Parse refuse_authority ''/filter?page=1&tag=a&tag=b''
   \<and> buildURL (Parse refuse_authority) ''/api/users'' None = Parse refuse_authority ''/api/users''
   \<and> isl (buildURL (Parse refuse_authority) ''/bad%zz'' (Some [(''q'', [''x''])]))"
proof -
  have bad: "isl (Parse refuse_authority ''/bad%zz?q=x'')" by code_simp
  show ?thesis
    using buildURL_follows_algorithm
            [of "Parse refuse_authority" "''/filter''"
                "Some [(''page'', [''1'']), (''tag'', [''a'', ''b''])]"]
          buildURL_follows_algorithm [of "Parse refuse_authority" "''/api/users''" None]
          buildURL_follows_algorithm
            [of "Parse refuse_authority" "''/bad%zz''" "Some [(''q'', [''x''])]"]
          bad
    by (simp add: len_map_def range_map_def url_string_def query_pairs_def)
qed

text \<open>
  C10. In a query with entries, a key without values contributes no pair: the string
  parsed is the one made from the entries that have values. When no key has a value it
  is the path and a question mark, that is, a URL with an empty query.
\<close>

theorem buildURL_drops_keys_without_values:
  "range_map query \<noteq> [] \<Longrightarrow>
   buildURL parser path query =
     parser (path @ ''?'' @
       strings_Join (query_pairs (filter (\<lambda>(k, v). v \<noteq> []) (range_map query))) ''&'')
   \<and> (list_all (\<lambda>(k, v). v = []) (range_map query) \<longrightarrow>
        buildURL parser path query = parser (path @ ''?''))"
  by (simp add: buildURL_url_string url_string_def query_pairs_filter query_pairs_all_empty)

theorem buildURL_drops_keys_without_values_witness:
  "buildURL (Parse refuse_authority) ''/filter'' (Some [(''page'', []), (''tag'', [''a''])]) =
     Parse refuse_authority ''/filter?tag=a''
   \<and> buildURL (Parse refuse_authority) ''/filter'' (Some [(''page'', []), (''tag'', [])]) =
       Inr (empty_url\<lparr>url.Path := ''/filter'', ForceQuery := True\<rparr>)"
proof -
  have p: "Parse refuse_authority ''/filter?'' =
             Inr (empty_url\<lparr>url.Path := ''/filter'', ForceQuery := True\<rparr>)"
    by code_simp
  show ?thesis
    using buildURL_drops_keys_without_values
            [of "Some [(''page'', []), (''tag'', [''a''])]" "Parse refuse_authority" "''/filter''"]
          buildURL_drops_keys_without_values
            [of "Some [(''page'', []), (''tag'', [])]" "Parse refuse_authority" "''/filter''"]
          p
    by (simp add: range_map_def query_pairs_def)
qed

subsection \<open>Which of the two forms of a map is used\<close>

lemma Run_depends_on:
  assumes "QueryProvided r' = QueryProvided r" and "HeadersProvided r' = HeadersProvided r"
    and "request.Path r' = request.Path r" and "request.Method r' = request.Method r"
    and "request.Body r' = request.Body r" and "request.BodyEncoded r' = request.BodyEncoded r"
    and "request.MultiValueHeaders r' = request.MultiValueHeaders r"
  shows "Run parser h ctx r' = Run parser h ctx r"
proof -
  have req: "Run_request parser ctx r' = Run_request parser ctx r"
    unfolding Run_request_def assms ..
  have reply: "Run_reply r' = Run_reply r"
    by (simp add: Run_reply_def SetHeaders_def assms fun_eq_iff)
  show ?thesis unfolding Run_def req reply ..
qed

text \<open>
  C4. For the query parameters and for the headers alike: a multi-value map that is not
  nil, even an empty one, is what \<^verbatim>\<open>QueryProvided\<close> and \<^verbatim>\<open>HeadersProvided\<close> return, whatever
  the single-value map holds, and \<^verbatim>\<open>Run\<close> does not depend on the single-value map then.
  Only when the multi-value map is nil is the single-value map used, each of its
  entries with its value wrapped as a sequence of one element.
\<close>

theorem multi_value_form_takes_precedence:
  "(MultiValueQuery r = Some mq \<longrightarrow>
      QueryProvided r = Some mq \<and> QueryProvided (r\<lparr>Query := q\<rparr>) = Some mq \<and>
      Run parser h ctx (r\<lparr>Query := q\<rparr>) = Run parser h ctx r)
   \<and> (request.MultiValueHeaders r = Some mh \<longrightarrow>
      HeadersProvided r = Some mh \<and> HeadersProvided (r\<lparr>request.Headers := hs\<rparr>) = Some mh \<and>
      Run parser h ctx (r\<lparr>request.Headers := hs\<rparr>) = Run parser h ctx r)
   \<and> (MultiValueQuery r = None \<and> wf_map (Query r) \<longrightarrow>
      QueryProvided r = Some (map (\<lambda>(k, v). (k, [v])) (range_map (Query r))))
   \<and> (request.MultiValueHeaders r = None \<and> wf_map (request.Headers r) \<longrightarrow>
      HeadersProvided r = Some (map (\<lambda>(k, v). (k, [v])) (range_map (request.Headers r))))"
proof -
  have wrap: "distinct (map fst al) \<Longrightarrow>
      fold (\<lambda>(k, v) container. AList.update k [v] container) al [] = map (\<lambda>(k, v). (k, [v])) al"
    for al :: "(string \<times> string) list"
    using fold_update_distinct [of al "[]" "\<lambda>v. [v]"] by simp
  have run_q: "Run parser h ctx (r\<lparr>Query := q\<rparr>) = Run parser h ctx r"
    if "MultiValueQuery r = Some mq"
    by (rule Run_depends_on) (use that in \<open>simp_all add: QueryProvided_def HeadersProvided_def\<close>)
  have run_h: "Run parser h ctx (r\<lparr>request.Headers := hs\<rparr>) = Run parser h ctx r"
    if "request.MultiValueHeaders r = Some mh"
    by (rule Run_depends_on) (use that in \<open>simp_all add: QueryProvided_def HeadersProvided_def\<close>)
  show ?thesis
    using run_q run_h by (auto simp: QueryProvided_def HeadersProvided_def wf_map_def wrap)
qed

theorem multi_value_form_takes_precedence_witness:
  "QueryProvided \<lparr>request.Method = ''GET'', request.Path = ''/'', Query = Some [(''a'', ''1'')],
       MultiValueQuery = Some [], request.Headers = Some [(''host'', ''h'')],
       request.MultiValueHeaders = None, request.Body = [], request.BodyEncoded = False\<rparr>
     = Some []
   \<and> HeadersProvided \<lparr>request.Method = ''GET'', request.Path = ''/'', Query = Some [(''a'', ''1'')],
       MultiValueQuery = Some [], request.Headers = Some [(''host'', ''h'')],
       request.MultiValueHeaders = None, request.Body = [], request.BodyEncoded = False\<rparr>
     = Some [(''host'', [''h''])]"
  using multi_value_form_takes_precedence
    [where r = "\<lparr>request.Method = ''GET'', request.Path = ''/'', Query = Some [(''a'', ''1'')],
       MultiValueQuery = Some [], request.Headers = Some [(''host'', ''h'')],
       request.MultiValueHeaders = None, request.Body = [], request.BodyEncoded = False\<rparr>"
      and mq = "[]" and q = None and parser = "Parse refuse_authority" and h = echo
      and ctx = "[]" and mh = "[]" and hs = None]
  by (simp add: wf_map_def range_map_def)


subsection \<open>The reconstructed body\<close>

text \<open>
  C1. Whenever the URL of the event parses, the request handed to the handler carries
  the body exactly. If \<^verbatim>\<open>BodyEncoded\<close> is false, its body is the bytes of the event's
  body string and its \<^verbatim>\<open>ContentLength\<close> the length of that string. If \<^verbatim>\<open>BodyEncoded\<close> is
  true and the body string decodes as standard base64 to \<open>b\<close>, its body is \<open>b\<close> and its
  \<^verbatim>\<open>ContentLength\<close> the length of \<open>b\<close>.
\<close>

theorem request_body_preserved:
  assumes "buildURL parser (request.Path req) (QueryProvided req) = Inr u"
  shows "(\<not> request.BodyEncoded req \<longrightarrow>
            (\<exists>r. Run_request parser ctx req = Inr r \<and>
                 http_Request.Body r = Some (request.Body req) \<and>
                 ContentLength r = int (length (request.Body req))))
       \<and> (request.BodyEncoded req \<and> DecodeString (request.Body req) = Inr b \<longrightarrow>
            (\<exists>r. Run_request parser ctx req = Inr r \<and>
                 http_Request.Body r = Some b \<and> ContentLength r = int (length b)))"
  using assms by (simp add: Run_request_def Let_def)

theorem request_body_preserved_witness:
  "(\<exists>r. Run_request (Parse refuse_authority) []
            ((event ''POST'' ''/echo'')\<lparr>request.Body := ''hello world''\<rparr>) = Inr r \<and>
        http_Request.Body r = Some ''hello world'' \<and> ContentLength r = 11)
   \<and> (\<exists>r. Run_request (Parse refuse_authority) []
            ((event ''POST'' ''/echo'')\<lparr>request.Body := ''aGVsbG8='',
                                        request.BodyEncoded := True\<rparr>) = Inr r \<and>
        http_Request.Body r = Some ''hello'' \<and> ContentLength r = 5)"
proof -
  have u: "buildURL (Parse refuse_authority) ''/echo'' (Some []) =
             Inr (empty_url\<lparr>url.Path := ''/echo''\<rparr>)"
    by code_simp
  have d: "DecodeString ''aGVsbG8='' = Inr ''hello''"
    by code_simp
  show ?thesis
    using request_body_preserved
            [of "Parse refuse_authority"
                "(event ''POST'' ''/echo'')\<lparr>request.Body := ''hello world''\<rparr>"
                "empty_url\<lparr>url.Path := ''/echo''\<rparr>" "[]"]
          request_body_preserved
            [of "Parse refuse_authority"
                "(event ''POST'' ''/echo'')\<lparr>request.Body := ''aGVsbG8='',
                                            request.BodyEncoded := True\<rparr>"
                "empty_url\<lparr>url.Path := ''/echo''\<rparr>" "[]" "''hello''"]
          u d
    by (simp add: event_def QueryProvided_def range_map_def)
qed

text \<open>
  C5. When \<^verbatim>\<open>BodyEncoded\<close> is true and the body string does not decode as standard
  base64, no request is constructed and \<^verbatim>\<open>Run\<close> returns an error and no reply, whatever
  the handler is: the handler is not called, and the text is not passed on undecoded.
\<close>

theorem invalid_base64_body_fails:
  assumes "request.BodyEncoded req" and "DecodeString (request.Body req) = Inl e"
  shows "\<exists>err. Run_request parser ctx req = Inl err \<and>
               Run parser h ctx req = Return (Inl err) \<and>
               Run parser h' ctx req = Return (Inl err)"
  using assms by (auto simp: Run_def Run_request_def Let_def split: sum.splits)

theorem invalid_base64_body_fails_witness:
  "Run (Parse refuse_authority) echo []
     ((event ''POST'' ''/test'')\<lparr>request.Body := ''not-valid-base64!!!'',
                                 request.BodyEncoded := True\<rparr>) =
     Return (Inl CorruptInputError)
   \<and> Run (Parse refuse_authority) panics []
     ((event ''POST'' ''/test'')\<lparr>request.Body := ''not-valid-base64!!!'',
                                 request.BodyEncoded := True\<rparr>) =
     Return (Inl CorruptInputError)"
proof -
  have d: "DecodeString ''not-valid-base64!!!'' = Inl CorruptInputError"
    by code_simp
  have u: "buildURL (Parse refuse_authority) ''/test'' (Some []) =
             Inr (empty_url\<lparr>url.Path := ''/test''\<rparr>)"
    by code_simp
  have r: "Run_request (Parse refuse_authority) []
             ((event ''POST'' ''/test'')\<lparr>request.Body := ''not-valid-base64!!!'',
                                         request.BodyEncoded := True\<rparr>) =
           Inl CorruptInputError"
    by (simp add: Run_request_def event_def QueryProvided_def range_map_def u d Let_def)
  show ?thesis
    using invalid_base64_body_fails
            [of "(event ''POST'' ''/test'')\<lparr>request.Body := ''not-valid-base64!!!'',
                                             request.BodyEncoded := True\<rparr>"
                CorruptInputError "Parse refuse_authority" "[]" echo panics]
          d r
    by (auto simp: event_def)
qed

subsection \<open>The reply\<close>

text \<open>
  C2. When the handler returns, the reply's body is decided by the UTF-8 validity of all
  the bytes it wrote: if they are valid UTF-8 the body is these bytes and \<^verbatim>\<open>BodyEncoded\<close>
  is false; otherwise the body is their standard base64 encoding and \<^verbatim>\<open>BodyEncoded\<close> is
  true.
\<close>

theorem reply_body_encoding:
  assumes "Run_request parser ctx req = Inr r" and "h r = Return rec"
  shows "\<exists>out. Run parser h ctx req = Return (Inr out) \<and>
           (if utf8_Valid (rec_Body rec)
            then response.Body out = rec_Body rec \<and> \<not> response.BodyEncoded out
            else response.Body out = EncodeToString (rec_Body rec) \<and> response.BodyEncoded out)"
  using assms
  by (simp add: Run_def Run_reply_def SetHeaders_def Let_def)

theorem reply_body_encoding_witness:
  "(\<exists>out. Run (Parse refuse_authority)
             (writes [] [CHR 0x00, CHR 0x01, CHR 0x02, CHR 0xFF, CHR 0xFE]) []
             (event ''GET'' ''/binary'') = Return (Inr out) \<and>
          response.Body out = ''AAEC//4='' \<and> response.BodyEncoded out)
   \<and> (\<exists>out. Run (Parse refuse_authority) echo []
             ((event ''POST'' ''/echo'')\<lparr>request.Body := ''aGVsbG8='',
                                         request.BodyEncoded := True\<rparr>) = Return (Inr out) \<and>
          response.Body out = ''hello'' \<and> \<not> response.BodyEncoded out)
   \<and> (\<exists>out. Run (Parse refuse_authority) (writes [] hello_utf8) []
             (event ''GET'' ''/binary'') = Return (Inr out) \<and>
          response.Body out = hello_utf8 \<and> \<not> response.BodyEncoded out)"
proof -
  have u: "buildURL (Parse refuse_authority) ''/binary'' (Some []) =
             Inr (empty_url\<lparr>url.Path := ''/binary''\<rparr>)"
       "buildURL (Parse refuse_authority) ''/echo'' (Some []) =
             Inr (empty_url\<lparr>url.Path := ''/echo''\<rparr>)"
    by code_simp+
  have d: "DecodeString ''aGVsbG8='' = Inr ''hello''"
    by code_simp
  have v: "\<not> utf8_Valid [CHR 0x00, CHR 0x01, CHR 0x02, CHR 0xFF, CHR 0xFE]"
          "utf8_Valid ''hello''"
          "EncodeToString [CHR 0x00, CHR 0x01, CHR 0x02, CHR 0xFF, CHR 0xFE] = ''AAEC//4=''"
          "utf8_Valid hello_utf8"
    by code_simp+
  obtain r1 where r1: "Run_request (Parse refuse_authority) [] (event ''GET'' ''/binary'') = Inr r1"
    by (simp add: Run_request_def event_def QueryProvided_def range_map_def u Let_def)
  obtain r2 where r2: "Run_request (Parse refuse_authority) []
        ((event ''POST'' ''/echo'')\<lparr>request.Body := ''aGVsbG8='',
                                    request.BodyEncoded := True\<rparr>) = Inr r2"
      and b2: "http_Request.Body r2 = Some ''hello''"
    by (simp add: Run_request_def event_def QueryProvided_def range_map_def u d Let_def)
  show ?thesis
    using reply_body_encoding [OF r1, of "writes [] [CHR 0x00, CHR 0x01, CHR 0x02, CHR 0xFF, CHR 0xFE]"
                                 "wrote [] [CHR 0x00, CHR 0x01, CHR 0x02, CHR 0xFF, CHR 0xFE]"]
          reply_body_encoding [OF r2, of echo "wrote [] ''hello''"]
          reply_body_encoding [OF r1, of "writes [] hello_utf8" "wrote [] hello_utf8"]
          b2 v
    by (simp add: writes_def echo_def wrote_def)
qed

text \<open>
  C3. The reply's headers have the form of the event's headers. If the event's
  \<^verbatim>\<open>MultiValueHeaders\<close> is nil, only \<^verbatim>\<open>Headers\<close> is set in the reply: every recorded header
  with its values joined by a comma, in their order. Otherwise only \<^verbatim>\<open>MultiValueHeaders\<close>
  is set, and it is the recorded header mapping itself. Exactly one of the two fields
  is not nil.
\<close>

theorem reply_headers_mirror_event:
  "(request.MultiValueHeaders req = None \<and> distinct (map fst (res_Header rec)) \<longrightarrow>
      response.Headers (Run_reply req rec) =
        Some (map (\<lambda>(k, vv). (k, strings_Join vv '','')) (res_Header rec)) \<and>
      response.MultiValueHeaders (Run_reply req rec) = None)
   \<and> (request.MultiValueHeaders req \<noteq> None \<longrightarrow>
      response.MultiValueHeaders (Run_reply req rec) = Some (res_Header rec) \<and>
      response.Headers (Run_reply req rec) = None)
   \<and> (response.Headers (Run_reply req rec) = None) \<noteq>
       (response.MultiValueHeaders (Run_reply req rec) = None)"
proof -
  have joined: "distinct (map fst al) \<Longrightarrow>
      fold (\<lambda>(k, vv) hs. AList.update k (strings_Join vv '','') hs) al [] =
      map (\<lambda>(k, vv). (k, strings_Join vv '','')) al"
    for al :: "(string \<times> string list) list"
    using fold_update_distinct [of al "[]" "\<lambda>vv. strings_Join vv '',''"] by simp
  show ?thesis
    by (auto simp: Run_reply_def SetHeaders_def Let_def joined)
qed

theorem reply_headers_mirror_event_witness:
  "response.Headers (Run_reply (event ''GET'' ''/multi'')
       (wrote [(''X-Multi'', [''first'', ''second''])] [])) = Some [(''X-Multi'', ''first,second'')]
   \<and> response.MultiValueHeaders (Run_reply (event ''GET'' ''/multi'')
       (wrote [(''X-Multi'', [''first'', ''second''])] [])) = None
   \<and> response.MultiValueHeaders
       (Run_reply ((event ''GET'' ''/multi'')\<lparr>request.MultiValueHeaders := Some []\<rparr>)
          (wrote [(''X-Multi'', [''first'', ''second''])] [])) =
       Some [(''X-Multi'', [''first'', ''second''])]
   \<and> response.Headers
       (Run_reply ((event ''GET'' ''/multi'')\<lparr>request.MultiValueHeaders := Some []\<rparr>)
          (wrote [(''X-Multi'', [''first'', ''second''])] [])) = None"
  using reply_headers_mirror_event
          [of "event ''GET'' ''/multi''" "wrote [(''X-Multi'', [''first'', ''second''])] []"]
        reply_headers_mirror_event
          [of "(event ''GET'' ''/multi'')\<lparr>request.MultiValueHeaders := Some []\<rparr>"
              "wrote [(''X-Multi'', [''first'', ''second''])] []"]
  by (simp add: event_def wrote_def)

subsection \<open>A handler that panics\<close>

text \<open>
  C9, as the code has it. \<^verbatim>\<open>Run\<close> has no \<^verbatim>\<open>recover\<close>: when the handler panics on the
  reconstructed request, \<^verbatim>\<open>Run\<close> panics with the same value and returns neither a reply
  nor an error. The only errors \<^verbatim>\<open>Run\<close> returns are those of the reconstruction of the
  request: \<^verbatim>\<open>Run\<close> returns an error exactly when the reconstruction fails with it, which
  is when the URL does not parse or when the body is flagged as encoded and does not
  decode. When the handler returns, \<^verbatim>\<open>Run\<close> returns the reply and no error.
\<close>

theorem handler_panic_propagates:
  "(Run_request parser ctx req = Inr r \<and> h r = Panic v \<longrightarrow>
      Run parser h ctx req = Panic v \<and> (\<forall>res. Run parser h ctx req \<noteq> Return res))
   \<and> (Run parser h ctx req = Return (Inl err) \<longleftrightarrow> Run_request parser ctx req = Inl err)
   \<and> (Run_request parser ctx req = Inl err \<longleftrightarrow>
        buildURL parser (request.Path req) (QueryProvided req) = Inl err \<or>
        \<not> isl (buildURL parser (request.Path req) (QueryProvided req)) \<and>
          request.BodyEncoded req \<and> DecodeString (request.Body req) = Inl err)
   \<and> (Run_request parser ctx req = Inr r \<and> h r = Return rec \<longrightarrow>
        Run parser h ctx req = Return (Inr (Run_reply req rec)))"
proof -
  have panic: "Run parser h ctx req = Panic v \<and> (\<forall>res. Run parser h ctx req \<noteq> Return res)"
    if "Run_request parser ctx req = Inr r" "h r = Panic v"
    using that by (simp add: Run_def)
  have err: "Run parser h ctx req = Return (Inl err) \<longleftrightarrow> Run_request parser ctx req = Inl err"
  proof (cases "Run_request parser ctx req")
    case (Inl e)
    then show ?thesis by (simp add: Run_def)
  next
    case (Inr r')
    then show ?thesis by (cases "h r'") (simp_all add: Run_def)
  qed
  have rebuild: "Run_request parser ctx req = Inl err \<longleftrightarrow>
        buildURL parser (request.Path req) (QueryProvided req) = Inl err \<or>
        \<not> isl (buildURL parser (request.Path req) (QueryProvided req)) \<and>
          request.BodyEncoded req \<and> DecodeString (request.Body req) = Inl err"
  proof (cases "buildURL parser (request.Path req) (QueryProvided req)")
    case (Inl e)
    then show ?thesis by (simp add: Run_request_def)
  next
    case (Inr u)
    then show ?thesis
      by (cases "DecodeString (request.Body req)") (simp_all add: Run_request_def Let_def)
  qed
  have ret: "Run parser h ctx req = Return (Inr (Run_reply req rec))"
    if "Run_request parser ctx req = Inr r" "h r = Return rec"
    using that by (simp add: Run_def)
  show ?thesis
    using panic err rebuild ret by blast
qed

theorem handler_panic_propagates_witness:
  "Run (Parse refuse_authority) panics [] (event ''GET'' ''/test'') = Panic ''boom''
   \<and> Run (Parse refuse_authority) panics [] (event ''GET'' ''/bad%zz'') =
       Return (Inl (EscapeError ''%zz''))
   \<and> Run (Parse refuse_authority) echo []
       ((event ''POST'' ''/test'')\<lparr>request.Body := ''hello''\<rparr>) =
       Return (Inr (Run_reply ((event ''POST'' ''/test'')\<lparr>request.Body := ''hello''\<rparr>)
                      (wrote [] ''hello'')))"
proof -
  have u: "buildURL (Parse refuse_authority) ''/test'' (Some []) =
             Inr (empty_url\<lparr>url.Path := ''/test''\<rparr>)"
    by code_simp
  have bad: "buildURL (Parse refuse_authority) ''/bad%zz'' (Some []) = Inl (EscapeError ''%zz'')"
    by code_simp
  obtain r where r: "Run_request (Parse refuse_authority) [] (event ''GET'' ''/test'') = Inr r"
    by (simp add: Run_request_def event_def QueryProvided_def range_map_def u Let_def)
  obtain r2 where r2: "Run_request (Parse refuse_authority) []
        ((event ''POST'' ''/test'')\<lparr>request.Body := ''hello''\<rparr>) = Inr r2"
    and b2: "http_Request.Body r2 = Some ''hello''"
    by (simp add: Run_request_def event_def QueryProvided_def range_map_def u Let_def)
  have q: "QueryProvided (event ''GET'' ''/bad%zz'') = Some []"
          "request.Path (event ''GET'' ''/bad%zz'') = ''/bad%zz''"
    by (simp_all add: event_def QueryProvided_def range_map_def)
  show ?thesis
    using handler_panic_propagates
            [where parser = "Parse refuse_authority" and ctx = "[]"
               and req = "event ''GET'' ''/test''" and r = r and h = panics and v = "''boom''"
               and err = CorruptInputError and rec = "wrote [] []"]
          handler_panic_propagates
            [where parser = "Parse refuse_authority" and ctx = "[]"
               and req = "event ''GET'' ''/bad%zz''" and r = r and h = panics and v = "''boom''"
               and err = "EscapeError ''%zz''" and rec = "wrote [] []"]
          handler_panic_propagates
            [where parser = "Parse refuse_authority" and ctx = "[]"
               and req = "(event ''POST'' ''/test'')\<lparr>request.Body := ''hello''\<rparr>"
               and r = r2 and h = echo and v = "''boom''"
               and err = CorruptInputError and rec = "wrote [] ''hello''"]
          r r2 b2 bad q
    by (simp add: panics_def echo_def)
qed

text \<open>The claim as the specification states it (a panic of the handler is turned into
  an error that \<^verbatim>\<open>Run\<close> returns) fails for the panicking handler on a plain event.\<close>

theorem handler_panic_not_caught:
  "Run (Parse refuse_authority) panics [] (event ''GET'' ''/'') = Panic ''boom''"
proof -
  have u: "buildURL (Parse refuse_authority) ''/'' (Some []) = Inr (empty_url\<lparr>url.Path := ''/''\<rparr>)"
    by code_simp
  show ?thesis
    by (simp add: Run_def Run_request_def event_def QueryProvided_def range_map_def u Let_def
          panics_def)
qed


subsection \<open>Header names\<close>

lemma byte_range: "0 \<le> byte c \<and> byte c < 256"
proof -
  have "byte c mod 256 = byte c" by (rule of_char_mod_256)
  then show ?thesis
    by (metis pos_mod_bound pos_mod_sign zero_less_numeral)
qed

lemma char_of_eq_byte: "char_of (n::int) = c \<longleftrightarrow> n mod 256 = byte c"
proof
  assume "char_of n = c"
  then have "byte (char_of n) = byte c" by simp
  then show "n mod 256 = byte c" by simp
next
  assume "n mod 256 = byte c"
  then have "char_of (n mod 256) = char_of (byte c)" by simp
  then show "char_of n = c" by simp
qed

lemma char_eq_char_of: "c = char_of (n::int) \<longleftrightarrow> n mod 256 = byte c"
  using char_of_eq_byte [of n c] by auto

lemma char_eq_byte: "c = c' \<longleftrightarrow> byte c = byte c'"
  by simp

lemma letters_valid: "is_lower c \<or> is_upper c \<Longrightarrow> validHeaderFieldByte c"
  by (auto simp: validHeaderFieldByte_def)

lemma lower_byte_eq_cases:
  assumes "lower_byte c = lower_byte c'"
  shows "c = c' \<or> (is_upper c \<and> is_lower c' \<and> byte c' = byte c + 32)
               \<or> (is_upper c' \<and> is_lower c \<and> byte c = byte c' + 32)"
  using assms byte_range [of c] byte_range [of c']
  unfolding lower_byte_def is_upper_def is_lower_def toLower_def char_eq_byte [of c c']
  by (auto simp: char_of_eq_byte split: if_splits)

lemma canonical_case_Cons:
  "canonical_case upper (c # a) =
     (if upper \<and> is_lower c then char_of (byte c - toLower)
      else if \<not> upper \<and> is_upper c then char_of (byte c + toLower) else c) #
     canonical_case ((if upper \<and> is_lower c then char_of (byte c - toLower)
      else if \<not> upper \<and> is_upper c then char_of (byte c + toLower) else c) = CHR ''-'') a"
  by (simp add: Let_def)

lemma canonical_byte_cong:
  assumes "lower_byte c = lower_byte c'"
  shows "(if upper \<and> is_lower c then char_of (byte c - toLower)
          else if \<not> upper \<and> is_upper c then char_of (byte c + toLower) else c) =
         (if upper \<and> is_lower c' then char_of (byte c' - toLower)
          else if \<not> upper \<and> is_upper c' then char_of (byte c' + toLower) else c')"
  using lower_byte_eq_cases [OF assms] byte_range [of c] byte_range [of c']
  by (auto simp: is_upper_def is_lower_def toLower_def char_of_eq_byte char_eq_char_of)

lemma canonical_case_cong:
  "ToLower k = ToLower k' \<Longrightarrow> canonical_case upper k = canonical_case upper k'"
proof (induction k arbitrary: k' upper)
  case Nil
  then show ?case by (simp add: ToLower_def)
next
  case (Cons c k)
  then obtain c' k2 where k': "k' = c' # k2" and c: "lower_byte c = lower_byte c'"
    and k: "ToLower k = ToLower k2"
    by (cases k') (auto simp: ToLower_def)
  show ?case
    unfolding k' canonical_case_Cons canonical_byte_cong [OF c, of upper]
    using Cons.IH [OF k] by simp
qed

lemma lower_byte_canonical:
  "lower_byte (if upper \<and> is_lower c then char_of (byte c - toLower)
          else if \<not> upper \<and> is_upper c then char_of (byte c + toLower) else c) = lower_byte c"
  using byte_range [of c]
  by (auto simp: lower_byte_def is_upper_def is_lower_def toLower_def char_of_eq_byte)

lemma ToLower_canonical_case: "ToLower (canonical_case upper k) = ToLower k"
  by (induction k arbitrary: upper) (simp_all add: ToLower_def Let_def lower_byte_canonical)

lemma valid_cong:
  "lower_byte c = lower_byte c' \<Longrightarrow> validHeaderFieldByte c = validHeaderFieldByte c'"
  using lower_byte_eq_cases [of c c'] letters_valid [of c] letters_valid [of c'] by auto

lemma list_all_valid_cong:
  "ToLower k = ToLower k' \<Longrightarrow> list_all validHeaderFieldByte k = list_all validHeaderFieldByte k'"
proof (induction k arbitrary: k')
  case Nil
  then show ?case by (simp add: ToLower_def)
next
  case (Cons c k)
  then obtain c' k2 where k': "k' = c' # k2" and c: "lower_byte c = lower_byte c'"
    and k: "ToLower k = ToLower k2"
    by (cases k') (auto simp: ToLower_def)
  show ?case using Cons.IH [OF k] valid_cong [OF c] by (simp add: k')
qed

lemma scan_key_valid: "list_all validHeaderFieldByte a \<Longrightarrow> scan_key noCanon a = Some noCanon"
  by (induction a arbitrary: noCanon) auto

lemma scan_key_True: "scan_key True a \<noteq> Some False"
  by (induction a) auto

lemma scan_key_invalid:
  "\<not> list_all validHeaderFieldByte a \<Longrightarrow> scan_key noCanon a \<noteq> Some False"
  by (induction a arbitrary: noCanon) (auto simp: scan_key_True)

lemma canonicalMIMEHeaderKey_eq:
  "canonicalMIMEHeaderKey a = (if list_all validHeaderFieldByte a then canonical_case True a else a)"
  using scan_key_invalid [of a False]
  by (auto simp: canonicalMIMEHeaderKey_def scan_key_valid split: option.splits)

lemma quick_check_False:
  "\<not> quick_check upper s \<Longrightarrow> list_all validHeaderFieldByte s \<Longrightarrow> canonical_case upper s = s"
  by (induction s arbitrary: upper) (auto simp: Let_def split: if_splits)

lemma CanonicalMIMEHeaderKey_eq:
  "CanonicalMIMEHeaderKey s = (if list_all validHeaderFieldByte s then canonical_case True s else s)"
  by (auto simp: CanonicalMIMEHeaderKey_def canonicalMIMEHeaderKey_eq quick_check_False)

lemma CanonicalMIMEHeaderKey_cong:
  "ToLower k' = ToLower k \<Longrightarrow> list_all validHeaderFieldByte k \<Longrightarrow>
   CanonicalMIMEHeaderKey k' = CanonicalMIMEHeaderKey k"
  using list_all_valid_cong [of k' k] canonical_case_cong [of k' k True]
  by (simp add: CanonicalMIMEHeaderKey_eq)

lemma CanonicalMIMEHeaderKey_same_name:
  assumes "CanonicalMIMEHeaderKey k2 = CanonicalMIMEHeaderKey k" and "list_all validHeaderFieldByte k"
  shows "ToLower k2 = ToLower k"
proof -
  have "ToLower (CanonicalMIMEHeaderKey k2) = ToLower k2"
    by (simp add: CanonicalMIMEHeaderKey_eq ToLower_canonical_case)
  moreover have "ToLower (CanonicalMIMEHeaderKey k) = ToLower k"
    by (simp add: CanonicalMIMEHeaderKey_eq ToLower_canonical_case)
  ultimately show ?thesis using assms(1) by simp
qed

lemma map_of_fold_update:
  "map_of (fold (\<lambda>(k, v) hs. AList.update (f k) v hs) al acc) =
     map_of acc ++ map_of (rev (map (\<lambda>(k, v). (f k, v)) al))"
proof (induction al arbitrary: acc)
  case Nil
  then show ?case by simp
next
  case (Cons e al)
  obtain k v where e: "e = (k, v)" by (cases e)
  show ?case
    by (rule ext) (simp add: e Cons.IH update_conv' map_add_def split: option.splits)
qed

lemma keys_fold_update:
  "fst ` set (fold (\<lambda>(k, v) hs. AList.update (f k) v hs) al acc) =
     fst ` set acc \<union> f ` fst ` set al"
proof (induction al arbitrary: acc)
  case Nil
  then show ?case by simp
next
  case (Cons e al)
  obtain k v where e: "e = (k, v)" by (cases e)
  show ?case by (simp add: e Cons.IH dom_update)
qed

lemma map_of_unique_value:
  assumes "(K, v) \<in> set xs" and "\<forall>(K2, v2) \<in> set xs. K2 = K \<longrightarrow> v2 = v"
  shows "map_of xs K = Some v"
proof -
  obtain v' where v': "map_of xs K = Some v'"
    using assms(1) weak_map_of_SomeI by fastforce
  then have "(K, v') \<in> set xs" by (rule map_of_SomeD)
  with assms(2) have "v' = v" by auto
  with v' show ?thesis by simp
qed


lemma Run_request_Header:
  assumes "Run_request parser ctx req = Inr r"
  shows "Header r =
           fold (\<lambda>(k, v) hs. AList.update (CanonicalMIMEHeaderKey k) v hs)
             (range_map (HeadersProvided req)) []"
  using assms by (auto simp: Run_request_def Let_def split: sum.splits if_splits)

text \<open>
  C8, as the code has it. Every key of the provided headers is passed through
  \<^verbatim>\<open>CanonicalMIMEHeaderKey\<close> before the handler runs. For a header whose name consists of
  valid header-field bytes, a lookup by any casing of the name returns the supplied
  value (the first one of a multi-value header, the empty string if it has none),
  provided that every entry supplied under that name in any casing carries this value.
\<close>

theorem header_lookup_any_casing:
  assumes "Run_request parser ctx req = Inr r"
    and "(k, v) \<in> set (range_map (HeadersProvided req))"
    and "list_all validHeaderFieldByte k"
    and "list_all (\<lambda>(k2, v2). ToLower k2 = ToLower k \<longrightarrow> v2 = v) (range_map (HeadersProvided req))"
    and "ToLower k' = ToLower k"
  shows "header_Get (Header r) k' = (case v of [] \<Rightarrow> [] | x # _ \<Rightarrow> x)
       \<and> fst ` set (Header r) =
           CanonicalMIMEHeaderKey ` fst ` set (range_map (HeadersProvided req))"
proof -
  let ?hp = "range_map (HeadersProvided req)"
  let ?K = "CanonicalMIMEHeaderKey k"
  let ?xs = "rev (map (\<lambda>(k, v). (CanonicalMIMEHeaderKey k, v)) ?hp)"
  have hdr: "Header r = fold (\<lambda>(k, v) hs. AList.update (CanonicalMIMEHeaderKey k) v hs) ?hp []"
    by (rule Run_request_Header [OF assms(1)])
  have key: "CanonicalMIMEHeaderKey k' = ?K"
    by (rule CanonicalMIMEHeaderKey_cong [OF assms(5) assms(3)])
  have mem: "(?K, v) \<in> set ?xs"
    using assms(2) by force
  have uniq: "\<forall>(K2, v2) \<in> set ?xs. K2 = ?K \<longrightarrow> v2 = v"
  proof clarify
    fix K2 v2
    assume "(?K, v2) \<in> set ?xs"
    then obtain k2 where k2: "(k2, v2) \<in> set ?hp" and c: "CanonicalMIMEHeaderKey k2 = ?K"
      by auto
    have "ToLower k2 = ToLower k"
      by (rule CanonicalMIMEHeaderKey_same_name [OF c assms(3)])
    with assms(4) k2 show "v2 = v"
      by (auto simp: list_all_iff)
  qed
  have "map_of (Header r) ?K = Some v"
    using map_of_unique_value [OF mem uniq] by (simp add: hdr map_of_fold_update)
  then have "header_Get (Header r) k' = (case v of [] \<Rightarrow> [] | x # _ \<Rightarrow> x)"
    by (simp add: header_Get_def index_map_def key)
  moreover have "fst ` set (Header r) = CanonicalMIMEHeaderKey ` fst ` set ?hp"
    by (simp add: hdr keys_fold_update)
  ultimately show ?thesis by simp
qed

theorem header_lookup_any_casing_witness:
  "\<exists>r. Run_request (Parse refuse_authority) []
          ((event ''GET'' ''/'')\<lparr>request.Headers := Some [(''content-type'', ''application/json'')]\<rparr>)
        = Inr r \<and>
      header_Get (Header r) ''Content-Type'' = ''application/json'' \<and>
      header_Get (Header r) ''CONTENT-TYPE'' = ''application/json'' \<and>
      fst ` set (Header r) = {''Content-Type''}"
proof -
  let ?ev = "(event ''GET'' ''/'')\<lparr>request.Headers := Some [(''content-type'', ''application/json'')]\<rparr>"
  have u: "buildURL (Parse refuse_authority) ''/'' (Some []) = Inr (empty_url\<lparr>url.Path := ''/''\<rparr>)"
    by code_simp
  obtain r where r: "Run_request (Parse refuse_authority) [] ?ev = Inr r"
    by (simp add: Run_request_def event_def QueryProvided_def range_map_def u Let_def)
  have hp: "range_map (HeadersProvided ?ev) = [(''content-type'', [''application/json''])]"
    by (simp add: HeadersProvided_def event_def range_map_def)
  have valid: "list_all validHeaderFieldByte ''content-type''"
    by code_simp
  have low: "ToLower ''Content-Type'' = ToLower ''content-type''"
            "ToLower ''CONTENT-TYPE'' = ToLower ''content-type''"
            "CanonicalMIMEHeaderKey ''content-type'' = ''Content-Type''"
    by code_simp+
  show ?thesis
    using header_lookup_any_casing
            [OF r, of "''content-type''" "[''application/json'']" "''Content-Type''"]
          header_lookup_any_casing
            [OF r, of "''content-type''" "[''application/json'']" "''CONTENT-TYPE''"]
          r hp valid low
    by simp
qed

text \<open>The claim as the specification states it (a lookup by any casing returns the
  supplied value, for every header) fails for a name with a space: such a key is left
  as it is, and so is the key of the lookup. The handler that reads \<open>My Header\<close> from
  an event with the header \<open>my header\<close> writes an empty body.\<close>

theorem header_with_space_not_found:
  "Run (Parse refuse_authority) (reads_header ''My Header'') []
     ((event ''GET'' ''/'')\<lparr>request.Headers := Some [(''my header'', ''v'')]\<rparr>) =
   Return (Inr \<lparr>StatusCode = 200, Status = ''200 OK'', Headers = Some [],
                MultiValueHeaders = None, Body = [], BodyEncoded = False\<rparr>)"
proof -
  have u: "buildURL (Parse refuse_authority) ''/'' (Some []) = Inr (empty_url\<lparr>url.Path := ''/''\<rparr>)"
    by code_simp
  have c: "CanonicalMIMEHeaderKey ''my header'' = ''my header''"
          "CanonicalMIMEHeaderKey ''My Header'' = ''My Header''"
          "CanonicalMIMEHeaderKey ''Host'' = ''Host''"
    by code_simp+
  have v: "utf8_Valid []" by simp
  show ?thesis
    by (simp add: Run_def Run_request_def Run_reply_def SetHeaders_def event_def
          QueryProvided_def HeadersProvided_def range_map_def u c v Let_def reads_header_def
          wrote_def header_Get_def index_map_def)
qed


text \<open>Two supplied keys that differ only in case are stored under one canonical key,
  and the entry visited last wins: here a lookup of \<open>content-type\<close> returns the value
  supplied as \<open>Content-Type\<close>.\<close>

lemma header_names_differing_in_case:
  "Run (Parse refuse_authority) (reads_header ''content-type'') []
     ((event ''GET'' ''/'')\<lparr>request.Headers :=
        Some [(''content-type'', ''a''), (''Content-Type'', ''b'')]\<rparr>) =
   Return (Inr \<lparr>StatusCode = 200, Status = ''200 OK'', Headers = Some [],
                MultiValueHeaders = None, Body = ''b'', BodyEncoded = False\<rparr>)"
proof -
  have u: "buildURL (Parse refuse_authority) ''/'' (Some []) = Inr (empty_url\<lparr>url.Path := ''/''\<rparr>)"
    by code_simp
  have c: "CanonicalMIMEHeaderKey ''content-type'' = ''Content-Type''"
          "CanonicalMIMEHeaderKey ''Content-Type'' = ''Content-Type''"
          "CanonicalMIMEHeaderKey ''Host'' = ''Host''"
    by code_simp+
  have v: "utf8_Valid ''b''" by code_simp
  show ?thesis
    by (simp add: Run_def Run_request_def Run_reply_def SetHeaders_def event_def
          QueryProvided_def HeadersProvided_def range_map_def u c v Let_def reads_header_def
          wrote_def header_Get_def index_map_def)
qed

subsection \<open>Reading the query back\<close>

lemma Cut_absent: "sep \<notin> set s \<Longrightarrow> Cut s sep = (s, [], False)"
  by (induction s) auto

lemma Cut_first: "sep \<notin> set a \<Longrightarrow> Cut (a @ sep # b) sep = (a, b, True)"
  by (induction a) auto

lemma hex_unreserved: "ishex c \<Longrightarrow> unreserved c"
  by (auto simp: ishex_def unreserved_def is_lower_def is_upper_def is_digit_def)

lemma percent_escaped_bytes:
  "percent_escaped s \<Longrightarrow> c \<in> set s \<Longrightarrow> unreserved c \<or> c = CHR ''%''"
proof (induction s rule: percent_escaped.induct)
  case 1
  then show ?case by simp
next
  case (2 d s)
  show ?case
  proof (cases "d = CHR ''%''")
    case True
    with "2.prems"(1) obtain h1 h2 s' where s: "s = h1 # h2 # s'" and h: "ishex h1" "ishex h2"
      and e: "percent_escaped s'"
      by (auto split: list.splits)
    from "2.IH"(1) [OF True s refl e] "2.prems"(2) True s h show ?thesis
      by (auto dest: hex_unreserved)
  next
    case False
    with "2.prems" "2.IH"(2) show ?thesis by auto
  qed
qed

lemma unreserved_not_special:
  "unreserved c \<or> c = CHR ''%'' \<Longrightarrow>
     c \<noteq> CHR ''?'' \<and> c \<noteq> CHR ''#'' \<and> c \<noteq> CHR ''&'' \<and> c \<noteq> CHR '';'' \<and> c \<noteq> CHR ''='' \<and>
     c \<noteq> CHR ''+''"
  by (auto simp: unreserved_def is_lower_def is_upper_def is_digit_def)

lemma unescape_percent_escaped:
  "percent_escaped s \<Longrightarrow> unescape s mode = Inr (percent_decode s)"
proof (induction s rule: percent_escaped.induct)
  case 1
  then show ?case by simp
next
  case (2 d s)
  show ?case
  proof (cases "d = CHR ''%''")
    case True
    with "2.prems"(1) obtain h1 h2 s' where s: "s = h1 # h2 # s'" and h: "ishex h1" "ishex h2"
      and e: "percent_escaped s'"
      by (auto split: list.splits)
    from "2.IH"(1) [OF True s refl e] True s h show ?thesis
      by simp
  next
    case False
    with "2.prems" have "unreserved d" "percent_escaped s" by auto
    with "2.IH"(2) [OF False] False unreserved_not_special [of d] show ?thesis by simp
  qed
qed


lemma strings_Join_Cons2:
  "strings_Join (p # q # ps) sep = p @ sep @ strings_Join (q # ps) sep"
  by (cases ps) simp_all

lemma parseQuery_Nil: "parseQuery m [] = m"
  by (subst parseQuery.simps) simp

lemma parseQuery_last_piece:
  "p \<noteq> [] \<Longrightarrow> CHR ''&'' \<notin> set p \<Longrightarrow> parseQuery m p = parse_piece m p"
  by (subst parseQuery.simps) (simp add: Cut_absent parseQuery_Nil)

lemma parseQuery_piece:
  "CHR ''&'' \<notin> set p \<Longrightarrow> parseQuery m (p @ CHR ''&'' # rest) = parseQuery (parse_piece m p) rest"
  by (subst parseQuery.simps) (simp add: Cut_first)

lemma parseQuery_Join:
  "list_all (\<lambda>p. p \<noteq> [] \<and> CHR ''&'' \<notin> set p) ps \<Longrightarrow>
   parseQuery m (strings_Join ps ''&'') = fold (\<lambda>p m. parse_piece m p) ps m"
proof (induction ps arbitrary: m)
  case Nil
  then show ?case by (simp add: parseQuery_Nil)
next
  case (Cons p ps)
  show ?case
  proof (cases ps)
    case Nil
    with Cons.prems show ?thesis by (simp add: parseQuery_last_piece)
  next
    case (Cons q qs)
    have "parseQuery m (strings_Join (p # q # qs) ''&'') =
          parseQuery (parse_piece m p) (strings_Join (q # qs) ''&'')"
      using Cons.prems parseQuery_piece [of p m "strings_Join (q # qs) ''&''"]
      by (simp only: strings_Join_Cons2) simp
    with Cons.IH [of "parse_piece m p"] Cons.prems Cons show ?thesis by simp
  qed
qed

lemma parse_piece_pair:
  assumes "percent_escaped k" and "percent_escaped v"
  shows "parse_piece m (k @ ''='' @ v) = add_value m (percent_decode k) (percent_decode v)"
proof -
  have k: "c \<in> set k \<Longrightarrow> c \<noteq> CHR '';'' \<and> c \<noteq> CHR ''=''" for c
    using percent_escaped_bytes [OF assms(1)] unreserved_not_special [of c] by blast
  have v: "c \<in> set v \<Longrightarrow> c \<noteq> CHR '';''" for c
    using percent_escaped_bytes [OF assms(2)] unreserved_not_special [of c] by blast
  have semi: "CHR '';'' \<notin> set (k @ ''='' @ v)" using k v by auto
  have cut: "Cut (k @ CHR ''='' # v) CHR ''='' = (k, v, True)"
    using Cut_first [of "CHR ''=''" k v] k by auto
  show ?thesis
    using semi
    by (simp add: parse_piece_def cut QueryUnescape_def unescape_percent_escaped assms)
qed

lemma pair_piece_ok:
  assumes "percent_escaped k" and "percent_escaped v"
  shows "k @ ''='' @ v \<noteq> [] \<and> CHR ''&'' \<notin> set (k @ ''='' @ v) \<and> CHR ''?'' \<notin> set (k @ ''='' @ v)
     \<and> CHR ''#'' \<notin> set (k @ ''='' @ v)"
proof -
  have "c \<in> set k \<Longrightarrow> c \<noteq> CHR ''&'' \<and> c \<noteq> CHR ''?'' \<and> c \<noteq> CHR ''#''" for c
    using percent_escaped_bytes [OF assms(1)] unreserved_not_special [of c] by blast
  moreover have "c \<in> set v \<Longrightarrow> c \<noteq> CHR ''&'' \<and> c \<noteq> CHR ''?'' \<and> c \<noteq> CHR ''#''" for c
    using percent_escaped_bytes [OF assms(2)] unreserved_not_special [of c] by blast
  ultimately show ?thesis by auto
qed

lemma fold_parse_piece_values:
  "percent_escaped k \<Longrightarrow> list_all percent_escaped v \<Longrightarrow>
   fold (\<lambda>p m. parse_piece m p) (map (\<lambda>vv. k @ ''='' @ vv) v) m =
   fold (\<lambda>(key, val) m. add_value m key val)
     (map (\<lambda>vv. (percent_decode k, percent_decode vv)) v) m"
  by (induction v arbitrary: m) (simp_all add: parse_piece_pair del: append.simps)

lemma fold_parse_piece_query:
  "list_all (\<lambda>(k, v). percent_escaped k \<and> list_all percent_escaped v) query \<Longrightarrow>
   fold (\<lambda>p m. parse_piece m p) (query_pairs query) m =
   fold (\<lambda>(key, val) m. add_value m key val) (decoded_pairs query) m"
proof (induction query arbitrary: m)
  case Nil
  then show ?case by (simp add: query_pairs_def decoded_pairs_def)
next
  case (Cons e query)
  obtain k v where e: "e = (k, v)" by (cases e)
  have qp: "query_pairs ((k, v) # query) = map (\<lambda>vv. k @ ''='' @ vv) v @ query_pairs query"
    by (simp add: query_pairs_def)
  have dp: "decoded_pairs ((k, v) # query) =
              map (\<lambda>vv. (percent_decode k, percent_decode vv)) v @ decoded_pairs query"
    by (simp add: decoded_pairs_def)
  from Cons.prems have kv: "percent_escaped k" "list_all percent_escaped v"
    and rest: "list_all (\<lambda>(k, v). percent_escaped k \<and> list_all percent_escaped v) query"
    by (auto simp: e)
  show ?case
    unfolding e qp dp fold_append comp_def fold_parse_piece_values [OF kv]
    by (rule Cons.IH [OF rest])
qed

lemma query_pairs_ok:
  "list_all (\<lambda>(k, v). percent_escaped k \<and> list_all percent_escaped v) query \<Longrightarrow>
   list_all (\<lambda>p. p \<noteq> [] \<and> CHR ''&'' \<notin> set p \<and> CHR ''?'' \<notin> set p \<and> CHR ''#'' \<notin> set p)
     (query_pairs query)"
  unfolding query_pairs_def list_all_iff
  using pair_piece_ok by fastforce

lemma index_map_add_value:
  "index_map (add_value m key val) name =
     (if name = key then index_map m key @ [val] else index_map m name)"
  by (simp add: add_value_def index_map_def update_conv')

lemma index_map_fold_add_value:
  "index_map (fold (\<lambda>(key, val) m. add_value m key val) ps m) name =
     index_map m name @ map snd (filter (\<lambda>(key, val). key = name) ps)"
  by (induction ps arbitrary: m) (auto simp: index_map_add_value)

lemma values_of_decoded_pairs:
  "map snd (filter (\<lambda>(key, val). key = name) (decoded_pairs query)) =
     concat (map (\<lambda>(k, v). if percent_decode k = name then map percent_decode v else []) query)"
proof (induction query)
  case Nil
  then show ?case by (simp add: decoded_pairs_def)
next
  case (Cons e query)
  obtain k v where e: "e = (k, v)" by (cases e)
  have dp: "decoded_pairs ((k, v) # query) =
              map (\<lambda>vv. (percent_decode k, percent_decode vv)) v @ decoded_pairs query"
    by (simp add: decoded_pairs_def)
  have "map snd (filter (\<lambda>(key, val). key = name)
          (map (\<lambda>vv. (percent_decode k, percent_decode vv)) v)) =
        (if percent_decode k = name then map percent_decode v else [])"
    by (induction v) auto
  with Cons.IH show ?case by (simp add: e dp)
qed


lemma question_mark_no_scheme_byte:
  "\<not> is_lower CHR ''?'' \<and> \<not> is_upper CHR ''?'' \<and> \<not> is_digit CHR ''?''"
  by (simp add: is_lower_def is_upper_def is_digit_def)

lemma scheme_scan_rest:
  "scheme_scan raw pre (a @ CHR ''?'' # b) = Inr (sch, rest) \<Longrightarrow>
   rest = raw \<or> (\<exists>a1 a2. a = a1 @ CHR '':'' # a2 \<and> rest = a2 @ CHR ''?'' # b)"
proof (induction a arbitrary: pre)
  case Nil
  then show ?case by (simp add: question_mark_no_scheme_byte)
next
  case (Cons c a)
  consider (scan) "scheme_scan raw (pre @ [c]) (a @ CHR ''?'' # b) = Inr (sch, rest)"
    | (raw) "rest = raw" | (colon) "c = CHR '':''" "rest = a @ CHR ''?'' # b"
    using Cons.prems by (auto split: if_splits)
  then show ?case
  proof cases
    case scan
    from Cons.IH [OF scan] show ?thesis
      by (metis append_Cons)
  next
    case raw
    then show ?thesis by simp
  next
    case colon
    then show ?thesis by (metis append_Nil)
  qed
qed

lemma getScheme_rest:
  assumes "getScheme (path @ CHR ''?'' # qs) = Inr (sch, rest)" and "CHR ''?'' \<notin> set path"
  shows "\<exists>p. rest = p @ CHR ''?'' # qs \<and> CHR ''?'' \<notin> set p"
  using scheme_scan_rest [of "path @ CHR ''?'' # qs" "[]" path qs sch rest] assms
  unfolding getScheme_def by auto

lemma split_query_RawQuery:
  assumes "CHR ''?'' \<notin> set p" and "CHR ''?'' \<notin> set qs" and "RawQuery u = []"
  shows "RawQuery (snd (split_query u (p @ CHR ''?'' # qs))) = qs"
proof (cases "qs = []")
  case True
  have "count_list (p @ ''?'') CHR ''?'' = 1"
    using assms(1) by (simp add: count_list_0_iff)
  then show ?thesis
    using assms(3) by (simp add: split_query_def True)
next
  case False
  then have "last qs \<in> set qs" by (rule last_in_set)
  with assms(2) have "last qs \<noteq> CHR ''?''" by metis
  with False have "last (p @ CHR ''?'' # qs) \<noteq> CHR ''?''" by simp
  then show ?thesis
    using assms(1) by (simp add: split_query_def Cut_first)
qed

lemma setPath_RawQuery: "setPath u p = Inr u' \<Longrightarrow> RawQuery u' = RawQuery u"
  by (auto simp: setPath_def split: sum.splits)

lemma parse_RawQuery:
  assumes "parse pa raw = Inr u" and "raw \<noteq> ''*''"
  shows "\<exists>scheme rest0. getScheme raw = Inr (scheme, rest0) \<and>
           RawQuery u = RawQuery (snd (split_query (empty_url\<lparr>Scheme := ToLower scheme\<rparr>) rest0))"
proof -
  from assms obtain scheme rest0 where g: "getScheme raw = Inr (scheme, rest0)"
    by (auto simp: parse_def split: if_splits sum.splits)
  obtain rest u0 where sq: "split_query (empty_url\<lparr>Scheme := ToLower scheme\<rparr>) rest0 = (rest, u0)"
    by (cases "split_query (empty_url\<lparr>Scheme := ToLower scheme\<rparr>) rest0")
  have "RawQuery u = RawQuery u0"
    using assms g sq
    by (auto simp: parse_def Let_def split: if_splits sum.splits dest!: setPath_RawQuery)
  with g sq show ?thesis by simp
qed

lemma Parse_no_fragment: "CHR ''#'' \<notin> set raw \<Longrightarrow> Parse pa raw = parse pa raw"
  by (simp add: Parse_def Cut_absent split: sum.splits)

lemma Parse_RawQuery:
  assumes "Parse pa (path @ CHR ''?'' # qs) = Inr u"
    and "CHR ''?'' \<notin> set path" and "CHR ''#'' \<notin> set path"
    and "CHR ''?'' \<notin> set qs" and "CHR ''#'' \<notin> set qs"
  shows "RawQuery u = qs"
proof -
  let ?raw = "path @ CHR ''?'' # qs"
  have "CHR ''#'' \<notin> set ?raw" using assms(3,5) by simp
  then have p: "parse pa ?raw = Inr u" using assms(1) by (simp add: Parse_no_fragment)
  have "?raw \<noteq> ''*''" by (cases path) auto
  from parse_RawQuery [OF p this] obtain scheme rest0
    where g: "getScheme ?raw = Inr (scheme, rest0)"
      and r: "RawQuery u = RawQuery (snd (split_query (empty_url\<lparr>Scheme := ToLower scheme\<rparr>) rest0))"
    by blast
  from getScheme_rest [OF g assms(2)] obtain p' where
    p': "rest0 = p' @ CHR ''?'' # qs" "CHR ''?'' \<notin> set p'" by blast
  show ?thesis
    unfolding r p'(1)
    by (rule split_query_RawQuery [OF p'(2) assms(4)]) (simp add: empty_url_def)
qed

lemma Join_bytes:
  "list_all (\<lambda>p. c \<notin> set p) ps \<Longrightarrow> c \<noteq> CHR ''&'' \<Longrightarrow> c \<notin> set (strings_Join ps ''&'')"
proof (induction ps)
  case Nil
  then show ?case by simp
next
  case (Cons p ps)
  then show ?case by (cases ps) (auto simp: strings_Join_Cons2 simp del: strings_Join.simps(3))
qed

text \<open>
  C6, as the code has it. The builder escapes nothing, so keys and path must be escaped
  as well as the values. For a query mapping with entries whose keys and values are
  percent-escaped, and a path without \<open>?\<close> and \<open>#\<close>: whenever \<^verbatim>\<open>buildURL\<close> returns a
  URL, the values its parsed query holds under a name are the values of the keys that
  decode to that name, each percent-decoded once, in their order.
\<close>

theorem query_values_round_trip:
  assumes "buildURL (Parse parseAuthority) path (Some query) = Inr u"
    and "query \<noteq> []"
    and "CHR ''?'' \<notin> set path" and "CHR ''#'' \<notin> set path"
    and "list_all (\<lambda>(k, v). percent_escaped k \<and> list_all percent_escaped v) query"
  shows "index_map (url_Query u) name =
           concat (map (\<lambda>(k, v). if percent_decode k = name then map percent_decode v else [])
                     query)"
proof -
  let ?qs = "strings_Join (query_pairs query) ''&''"
  have ok: "list_all (\<lambda>p. p \<noteq> [] \<and> CHR ''&'' \<notin> set p \<and> CHR ''?'' \<notin> set p \<and> CHR ''#'' \<notin> set p)
              (query_pairs query)"
    by (rule query_pairs_ok [OF assms(5)])
  have q: "CHR ''?'' \<notin> set ?qs"
    by (rule Join_bytes) (use ok in \<open>auto simp: list_all_iff\<close>)
  have h: "CHR ''#'' \<notin> set ?qs"
    by (rule Join_bytes) (use ok in \<open>auto simp: list_all_iff\<close>)
  have "Parse parseAuthority (path @ CHR ''?'' # ?qs) = Inr u"
    using assms(1,2) by (simp add: buildURL_url_string url_string_def range_map_def)
  from Parse_RawQuery [OF this assms(3,4) q h] have raw: "RawQuery u = ?qs" .
  have pieces: "list_all (\<lambda>p. p \<noteq> [] \<and> CHR ''&'' \<notin> set p) (query_pairs query)"
    using ok by (auto simp: list_all_iff)
  have "url_Query u = fold (\<lambda>(key, val) m. add_value m key val) (decoded_pairs query) []"
    by (simp add: url_Query_def raw parseQuery_Join [OF pieces] fold_parse_piece_query [OF assms(5)])
  moreover have "index_map [] name = ([] :: string list)"
    by (simp add: index_map_def)
  ultimately show ?thesis
    by (simp add: index_map_fold_add_value values_of_decoded_pairs)
qed


theorem query_values_round_trip_witness:
  "buildURL (Parse refuse_authority) ''/search'' (Some [(''q'', [''hello%20world''])]) =
     Inr (empty_url\<lparr>url.Path := ''/search'', RawQuery := ''q=hello%20world''\<rparr>)
   \<and> index_map (url_Query (empty_url\<lparr>url.Path := ''/search'', RawQuery := ''q=hello%20world''\<rparr>))
       ''q'' = [''hello world'']"
proof -
  have b: "buildURL (Parse refuse_authority) ''/search'' (Some [(''q'', [''hello%20world''])]) =
             Inr (empty_url\<lparr>url.Path := ''/search'', RawQuery := ''q=hello%20world''\<rparr>)"
    by code_simp
  have e: "list_all (\<lambda>(k, v). percent_escaped k \<and> list_all percent_escaped v)
             [(''q'', [''hello%20world''])]"
    by code_simp
  have d: "percent_decode ''q'' = ''q''" "percent_decode ''hello%20world'' = ''hello world''"
    by code_simp+
  show ?thesis
    using query_values_round_trip [OF b _ _ _ e, of "''q''"] b d by simp
qed

text \<open>The claim as the specification states it (for every query mapping whose values
  are percent-escaped) fails for a key that is not escaped: the value \<open>x\<close> of the key
  \<open>a&b\<close> is read back under the name \<open>b\<close>, with an empty value under the name \<open>a\<close>,
  and nothing under \<open>a&b\<close>.\<close>

theorem unescaped_key_not_read_back:
  "buildURL (Parse refuse_authority) ''/p'' (Some [(''a&b'', [''x''])]) =
     Inr (empty_url\<lparr>url.Path := ''/p'', RawQuery := ''a&b=x''\<rparr>)
   \<and> url_Query (empty_url\<lparr>url.Path := ''/p'', RawQuery := ''a&b=x''\<rparr>) =
       [(''a'', [[]]), (''b'', [''x''])]
   \<and> percent_escaped ''x''"
  by code_simp


subsection \<open>The library models: base64 and UTF-8\<close>

text \<open>Two checks of the library models. The base64 decoder undoes the encoder on every
  byte sequence, so a body that the reply carries encoded can be recovered exactly; and
  text of ASCII bytes is valid UTF-8.\<close>

lemma index_of_nth:
  "distinct xs \<Longrightarrow> n < length xs \<Longrightarrow> index_of (xs ! n) xs = Some (int n)"
proof (induction xs arbitrary: n)
  case Nil
  then show ?case by simp
next
  case (Cons x xs)
  show ?case
  proof (cases n)
    case 0
    then show ?thesis by simp
  next
    case (Suc m)
    with Cons.prems have "xs ! m \<noteq> x" by auto
    with Cons.IH [of m] Cons.prems Suc show ?thesis by simp
  qed
qed

lemma distinct_encodeStd: "distinct encodeStd"
  by (simp add: encodeStd_def)

lemma length_encodeStd: "length encodeStd = 64"
  by (simp add: encodeStd_def)

lemma decodeMap_encode_sextet: "decodeMap (encode_sextet v) = Some (v mod 64)"
proof -
  have "nat (v mod 64) < length encodeStd" by (simp add: length_encodeStd)
  from index_of_nth [OF distinct_encodeStd this] show ?thesis
    by (simp add: decodeMap_def encode_sextet_def)
qed

lemma sextets_value:
  assumes "0 \<le> val" and "val < 16777216"
  shows "(val div 262144 mod 64) * 262144 + (val div 4096 mod 64) * 4096 + (val div 64 mod 64) * 64
     + val mod 64 = (val :: int)"
proof -
  define q1 where "q1 = val div 64"
  define q2 where "q2 = q1 div 64"
  define q3 where "q3 = q2 div 64"
  have d2: "val div 4096 = q2"
    using zdiv_zmult2_eq [of 64 val 64] by (simp add: q1_def q2_def)
  have d3: "val div 262144 = q3"
    using zdiv_zmult2_eq [of 64 val 4096] by (simp add: d2 q3_def)
  have small: "q3 mod 64 = q3"
    using assms d3 by (simp add: div_less_iff_less_mult pos_imp_zdiv_nonneg_iff)
  have e1: "val = 64 * q1 + val mod 64" by (simp add: q1_def)
  have e2: "q1 = 64 * q2 + q1 mod 64" by (simp add: q2_def)
  have e3: "q2 = 64 * q3 + q2 mod 64" by (simp add: q3_def)
  show ?thesis
    unfolding d2 d3 small using e1 e2 e3 unfolding q1_def [symmetric] by linarith
qed


lemma decode_loop_sextet:
  "decode_loop dbuf (encode_sextet v # src) =
     (if length dbuf = 3
      then (case decode_loop [] src of
              Inl err \<Rightarrow> Inl err
            | Inr rest \<Rightarrow> Inr (quantum_bytes (dbuf @ [v mod 64]) @ rest))
      else decode_loop (dbuf @ [v mod 64]) src)"
  by (simp add: decodeMap_encode_sextet)

lemma decodeMap_pad: "decodeMap CHR ''='' = None"
  by (simp add: decodeMap_def encodeStd_def)

lemma quantum_bytes_4:
  "quantum_bytes [d0, d1, d2, d3] =
     [char_of ((d0 * 262144 + d1 * 4096 + d2 * 64 + d3) div 65536),
      char_of ((d0 * 262144 + d1 * 4096 + d2 * 64 + d3) div 256),
      char_of (d0 * 262144 + d1 * 4096 + d2 * 64 + d3)]"
  by (simp add: quantum_bytes_def Let_def)

lemma bytes_of_value:
  fixes a b c :: char
  defines "val \<equiv> byte a * 65536 + byte b * 256 + byte c"
  shows "char_of (val div 65536) = a \<and> char_of (val div 256) = b \<and> char_of val = c"
proof -
  have low: "0 \<le> byte b * 256 + byte c" "byte b * 256 + byte c < 65536"
    using byte_range [of b] byte_range [of c] by auto
  have "val div 65536 = (byte a * 65536 + (byte b * 256 + byte c)) div 65536"
    by (simp add: val_def)
  also have "\<dots> = byte a + (byte b * 256 + byte c) div 65536"
    by (rule div_mult_self3) simp
  finally have d1: "val div 65536 = byte a"
    using low by (simp add: div_pos_pos_trivial)
  have "val div 256 = ((byte a * 256 + byte b) * 256 + byte c) div 256"
    by (simp add: val_def algebra_simps)
  also have "\<dots> = byte a * 256 + byte b + byte c div 256"
    by (rule div_mult_self3) simp
  finally have d2: "val div 256 = byte a * 256 + byte b"
    using byte_range [of c] by (simp add: div_pos_pos_trivial)
  have "(byte a * 256 + byte b) mod 256 = (byte b + byte a * 256) mod 256"
    by (simp only: add.commute)
  also have "\<dots> = byte b mod 256" by (rule mod_mult_self1)
  finally have m2: "(byte a * 256 + byte b) mod 256 = byte b mod 256" .
  have "val mod 256 = (byte c + (byte a * 256 + byte b) * 256) mod 256"
    unfolding val_def by (simp only: distrib_right mult.assoc add.commute add.left_commute) simp
  also have "\<dots> = byte c mod 256" by (rule mod_mult_self1)
  finally have m3: "val mod 256 = byte c mod 256" .
  have "char_of (byte a * 256 + byte b) = char_of (byte b)"
    using m2 by (simp only: char_of_quasi_inj)
  moreover have "char_of val = char_of (byte c)"
    using m3 by (simp only: char_of_quasi_inj)
  ultimately show ?thesis by (simp add: d1 d2)
qed

lemma quantum3:
  assumes "val = byte a * 65536 + byte b * 256 + byte c"
  shows "quantum_bytes [val div 262144 mod 64, val div 4096 mod 64, val div 64 mod 64,
                        val mod 64] = [a, b, c]"
proof -
  have r: "0 \<le> val" "val < 16777216"
    unfolding assms using byte_range [of a] byte_range [of b] byte_range [of c] by auto
  show ?thesis
    unfolding quantum_bytes_4 sextets_value [OF r]
    using bytes_of_value [of a b c] by (simp add: assms)
qed

lemma quantum2:
  assumes "val = byte a * 65536 + byte b * 256"
  shows "quantum_bytes [val div 262144 mod 64, val div 4096 mod 64, val div 64 mod 64] = [a, b]"
proof -
  have r: "0 \<le> val" "val < 16777216"
    unfolding assms using byte_range [of a] byte_range [of b] by auto
  have "val = (byte a * 1024 + byte b * 4) * 64" by (simp add: assms)
  then have z: "val mod 64 = 0" by (metis mod_mult_self2_is_0)
  have q: "quantum_bytes [d0, d1, d2] =
             [char_of ((d0 * 262144 + d1 * 4096 + d2 * 64) div 65536),
              char_of ((d0 * 262144 + d1 * 4096 + d2 * 64) div 256)]" for d0 d1 d2
    by (simp add: quantum_bytes_def Let_def)
  have v: "(val div 262144 mod 64) * 262144 + (val div 4096 mod 64) * 4096
             + (val div 64 mod 64) * 64 = val"
    using sextets_value [OF r] z by linarith
  have "val = byte a * 65536 + byte b * 256 + byte (CHR 0x00)" by (simp add: assms)
  with bytes_of_value [of a b "CHR 0x00"]
  have "char_of (val div 65536) = a \<and> char_of (val div 256) = b" by simp
  then show ?thesis
    unfolding q v by simp
qed

lemma quantum1:
  assumes "val = byte a * 65536"
  shows "quantum_bytes [val div 262144 mod 64, val div 4096 mod 64] = [a]"
proof -
  have r: "0 \<le> val" "val < 16777216"
    unfolding assms using byte_range [of a] by auto
  have "val = (byte a * 1024) * 64" by (simp add: assms)
  then have z: "val mod 64 = 0" by (metis mod_mult_self2_is_0)
  have "val div 64 = byte a * 16 * 64" by (simp add: assms)
  then have z2: "val div 64 mod 64 = 0" by (metis mod_mult_self2_is_0)
  have q: "quantum_bytes [d0, d1] = [char_of ((d0 * 262144 + d1 * 4096) div 65536)]" for d0 d1
    by (simp add: quantum_bytes_def Let_def)
  have v: "(val div 262144 mod 64) * 262144 + (val div 4096 mod 64) * 4096 = val"
    using sextets_value [OF r] z z2 by linarith
  have "val = byte a * 65536 + byte (CHR 0x00) * 256 + byte (CHR 0x00)" by (simp add: assms)
  with bytes_of_value [of a "CHR 0x00" "CHR 0x00"]
  have "char_of (val div 65536) = a" by simp
  then show ?thesis
    unfolding q v by simp
qed

lemma base64_round_trip: "DecodeString (EncodeToString src) = Inr src"
  unfolding DecodeString_def
proof (induction src rule: EncodeToString.induct)
  case (1 a b c src)
  define val where "val = byte a * 65536 + byte b * 256 + byte c"
  have enc: "EncodeToString (a # b # c # src) =
      [encode_sextet (val div 262144), encode_sextet (val div 4096),
       encode_sextet (val div 64), encode_sextet val] @ EncodeToString src"
    by (simp add: val_def Let_def)
  show ?case
    unfolding enc using "1.IH" [OF val_def]
    by (simp add: decode_loop_sextet quantum3 [OF val_def] del: decode_loop.simps)
next
  case (2 a b)
  define val where "val = byte a * 65536 + byte b * 256"
  have enc: "EncodeToString [a, b] =
      [encode_sextet (val div 262144), encode_sextet (val div 4096),
       encode_sextet (val div 64), CHR ''='']"
    by (simp add: val_def Let_def)
  have pad: "decode_loop [d0, d1, d2] ''='' = Inr (quantum_bytes [d0, d1, d2])" for d0 d1 d2
    by (simp add: decodeMap_pad is_newline_def)
  show ?case
    unfolding enc
    by (simp add: decode_loop_sextet pad quantum2 [OF val_def] del: decode_loop.simps)
next
  case (3 a)
  define val where "val = byte a * 65536"
  have enc: "EncodeToString [a] =
      [encode_sextet (val div 262144), encode_sextet (val div 4096), CHR ''='', CHR ''='']"
    by (simp add: val_def Let_def)
  have pad: "decode_loop [d0, d1] ''=='' = Inr (quantum_bytes [d0, d1])" for d0 d1
    by (simp add: decodeMap_pad is_newline_def)
  show ?case
    unfolding enc
    by (simp add: decode_loop_sextet pad quantum1 [OF val_def] del: decode_loop.simps)
next
  case 4
  show ?case by simp
qed


lemma utf8_Valid_ascii: "list_all (\<lambda>c. byte c < 0x80) s \<Longrightarrow> utf8_Valid s"
  by (induction s) simp_all

end
